theory Spec2Isabelle
  imports Main
begin

section \<open>Values handled by the gateway\<close>

text \<open>
  The gateway (api-gateway-python/main.py) works on Python floats. Their arithmetic is
  not defined in the repository, so the four float operations the code uses are taken as
  parameters: the comparison \<open>base <= 0\<close>, the product \<open>base * i\<close> with an int,
  \<open>math.pow(base, i)\<close> (which may raise, \<open>Inl\<close> carrying \<open>str(e)\<close>) and the
  formatting of a float inside an f-string.
\<close>

record 'f float_ops =
  le_zero :: "'f \<Rightarrow> bool"
  mul_int :: "'f \<Rightarrow> int \<Rightarrow> 'f"
  math_pow :: "'f \<Rightarrow> int \<Rightarrow> string + 'f"
  str_float :: "'f \<Rightarrow> string"

text \<open>The argument of \<open>json.dumps\<close> and the payload of an event: a JSON-like value.\<close>

datatype 'f json = JStr string | JInt int | JFloat 'f | JObj "(string \<times> 'f json) list"

fun field :: "string \<Rightarrow> 'f json \<Rightarrow> 'f json option" where
  "field k (JObj kvs) = map_of kvs k"
| "field k (JStr s) = None"
| "field k (JInt i) = None"
| "field k (JFloat x) = None"

text \<open>Decimal rendering of an int, as an f-string does it.\<close>

fun str_nat :: "nat \<Rightarrow> string" where
  "str_nat n = (if n < 10 then [''0123456789'' ! n]
                else str_nat (n div 10) @ [''0123456789'' ! (n mod 10)])"

declare str_nat.simps [simp del]

definition str_int :: "int \<Rightarrow> string" where
  "str_int i = (if i < 0 then CHR ''-'' # str_nat (nat (- i)) else str_nat (nat i))"

text \<open>
  Timestamps: \<open>datetime.utcnow()\<close> reads a logical clock kept in the world, counted in
  tenths of a second, which only \<open>asyncio.sleep\<close> advances. \<open>isoformat\<close> renders it.
\<close>

definition isoformat :: "nat \<Rightarrow> string" where
  "isoformat t = str_nat t"

section \<open>Request and stored documents\<close>

record 'f CalculationRequest =
  base :: 'f
  exponent :: int

text \<open>
  A calculation id is \<open>str(calc_result.inserted_id)\<close>, or the literal \<open>"unknown"\<close>
  that the synchronous handler uses when no id was bound.
\<close>

datatype calc_id = ObjectIdStr nat | Unknown

text \<open>The text of an id inside a message; an ObjectId is written as its number.\<close>

fun str_calc_id :: "calc_id \<Rightarrow> string" where
  "str_calc_id (ObjectIdStr n) = str_nat n"
| "str_calc_id Unknown = ''unknown''"

text \<open>
  A document of the \<open>calculations\<close> collection; the \<open>$set\<close> fields are absent at
  first. A collection is an association list from \<open>_id\<close> to document, in insertion order.
\<close>

record 'f calculation_doc =
  doc_base :: 'f
  doc_exponent :: int
  status :: string
  started_at :: nat
  completed_at :: "nat option"
  linear_result :: "'f option"
  exponential_result :: "'f option"
  total_steps :: "int option"

text \<open>A document of the \<open>calculation_events\<close> collection.\<close>

record 'f event_doc =
  calculation_id :: calc_id
  event_type :: string
  message :: string
  timestamp :: nat
  data :: "(string \<times> 'f json) list option"

section \<open>The store\<close>

text \<open>
  A request sent to MongoDB. Every call is recorded in \<open>issued\<close> before the store answers.
  The store answers from a script: the head of \<open>faults\<close> is consumed by each call, and
  \<open>Some msg\<close> makes the call raise an exception whose \<open>str\<close> is \<open>msg\<close>; an exhausted
  script means the store accepts the call.
\<close>

datatype 'f store_request =
  InsertCalculation "'f calculation_doc"
  | UpdateCalculation nat
  | InsertEvent "'f event_doc"

record 'f world =
  calculations :: "(nat \<times> 'f calculation_doc) list"
  events :: "(nat \<times> 'f event_doc) list"
  next_oid :: nat
  now :: nat
  faults :: "string option list"
  issued :: "'f store_request list"

definition store_call :: "'f store_request \<Rightarrow> 'f world \<Rightarrow> string option \<times> 'f world" where
  "store_call r w =
     ((case faults w of [] \<Rightarrow> None | f # fs \<Rightarrow> f),
      w\<lparr>issued := issued w @ [r], faults := tl (faults w)\<rparr>)"

text \<open>\<open>calculations_collection.insert_one(calculation_doc)\<close>: returns the inserted id.\<close>

definition insert_calculation ::
  "'f calculation_doc \<Rightarrow> 'f world \<Rightarrow> (string + nat) \<times> 'f world" where
  "insert_calculation d w =
     (case store_call (InsertCalculation d) w of
        (Some e, w1) \<Rightarrow> (Inl e, w1)
      | (None, w1) \<Rightarrow>
          (Inr (next_oid w1),
           w1\<lparr>calculations := calculations w1 @ [(next_oid w1, d)],
              next_oid := Suc (next_oid w1)\<rparr>))"

text \<open>\<open>calculations_collection.update_one({"_id": ...}, {"$set": {...}})\<close> of the final update.\<close>

definition set_completed :: "nat \<Rightarrow> 'f \<Rightarrow> 'f \<Rightarrow> int \<Rightarrow> 'f calculation_doc \<Rightarrow> 'f calculation_doc" where
  "set_completed t lin ex n d =
     d\<lparr>status := ''completed'', completed_at := Some t, linear_result := Some lin,
       exponential_result := Some ex, total_steps := Some n\<rparr>"

fun update_first :: "nat \<Rightarrow> ('f calculation_doc \<Rightarrow> 'f calculation_doc) \<Rightarrow>
    (nat \<times> 'f calculation_doc) list \<Rightarrow> (nat \<times> 'f calculation_doc) list" where
  "update_first i f [] = []"
| "update_first i f ((k, d) # ds) =
     (if k = i then (k, f d) # ds else (k, d) # update_first i f ds)"

definition update_calculation ::
  "nat \<Rightarrow> nat \<Rightarrow> 'f \<Rightarrow> 'f \<Rightarrow> int \<Rightarrow> 'f world \<Rightarrow> string option \<times> 'f world" where
  "update_calculation i t lin ex n w =
     (case store_call (UpdateCalculation i) w of
        (Some e, w1) \<Rightarrow> (Some e, w1)
      | (None, w1) \<Rightarrow>
          (None, w1\<lparr>calculations := update_first i (set_completed t lin ex n) (calculations w1)\<rparr>))"

text \<open>
  \<open>log_event\<close> (main.py, line 347): builds the event document, with \<open>data or {}\<close> in the
  data field, and inserts it. The result is \<open>Some msg\<close> when the insert raised.
\<close>

definition or_empty :: "(string \<times> 'f json) list option \<Rightarrow> (string \<times> 'f json) list" where
  "or_empty d = (case d of None \<Rightarrow> [] | Some kvs \<Rightarrow> (if kvs = [] then [] else kvs))"

definition event_doc_of ::
  "calc_id \<Rightarrow> string \<Rightarrow> string \<Rightarrow> (string \<times> 'f json) list option \<Rightarrow> 'f world \<Rightarrow> 'f event_doc" where
  "event_doc_of cid ty msg d w =
     \<lparr>calculation_id = cid, event_type = ty, message = msg,
      timestamp = now w, data = Some (or_empty d)\<rparr>"

definition log_event ::
  "calc_id \<Rightarrow> string \<Rightarrow> string \<Rightarrow> (string \<times> 'f json) list option \<Rightarrow> 'f world \<Rightarrow>
     string option \<times> 'f world" where
  "log_event cid ty msg d w =
     (let event_doc = event_doc_of cid ty msg d w
      in case store_call (InsertEvent event_doc) w of
           (Some e, w1) \<Rightarrow> (Some e, w1)
         | (None, w1) \<Rightarrow>
             (None, w1\<lparr>events := events w1 @ [(next_oid w1, event_doc)],
                       next_oid := Suc (next_oid w1)\<rparr>))"

definition sleep :: "nat \<Rightarrow> 'f world \<Rightarrow> 'f world" where
  "sleep tenths w = w\<lparr>now := now w + tenths\<rparr>"

section \<open>The streamed endpoint\<close>

text \<open>The multiplication sign of the operation labels, in UTF-8.\<close>

definition times_sign :: string where
  "times_sign = [CHR 0xC3, CHR 0x97]"

definition linear_operation :: "'f float_ops \<Rightarrow> 'f \<Rightarrow> int \<Rightarrow> string" where
  "linear_operation ops b i = str_float ops b @ '' '' @ times_sign @ '' '' @ str_int i"

definition exponential_operation :: "'f float_ops \<Rightarrow> 'f \<Rightarrow> int \<Rightarrow> string" where
  "exponential_operation ops b i = str_float ops b @ ''^'' @ str_int i"

definition validation_error :: "string \<Rightarrow> 'f json" where
  "validation_error msg = JObj [(''type'', JStr ''error''), (''error'', JStr msg)]"

definition start_event :: "calc_id \<Rightarrow> 'f CalculationRequest \<Rightarrow> 'f json" where
  "start_event cid request =
     JObj [(''type'', JStr ''start''),
           (''calculation_id'', JStr (str_calc_id cid)),
           (''base'', JFloat (base request)),
           (''exponent'', JInt (exponent request))]"

definition step_data :: "'f float_ops \<Rightarrow> 'f CalculationRequest \<Rightarrow> int \<Rightarrow> 'f \<Rightarrow> 'f \<Rightarrow> nat \<Rightarrow> 'f json" where
  "step_data ops request i linear_res exponential_res t =
     JObj [(''type'', JStr ''step''),
           (''step'', JInt i),
           (''linear'', JObj [(''operation'', JStr (linear_operation ops (base request) i)),
                              (''result'', JFloat linear_res)]),
           (''exponential'', JObj [(''operation'', JStr (exponential_operation ops (base request) i)),
                                   (''result'', JFloat exponential_res)]),
           (''timestamp'', JStr (isoformat t))]"

definition completion_data ::
  "calc_id \<Rightarrow> 'f \<Rightarrow> 'f \<Rightarrow> int \<Rightarrow> nat \<Rightarrow> nat \<Rightarrow> 'f json" where
  "completion_data cid linear_final exponential_final n started completed =
     JObj [(''type'', JStr ''complete''),
           (''calculation_id'', JStr (str_calc_id cid)),
           (''linear_result'', JFloat linear_final),
           (''exponential_result'', JFloat exponential_final),
           (''total_steps'', JInt n),
           (''started_at'', JStr (isoformat started)),
           (''completed_at'', JStr (isoformat completed))]"

text \<open>The journal write of both handlers: \<open>log_event(id, "calculation_error", ...)\<close>.\<close>

definition log_error :: "calc_id \<Rightarrow> string \<Rightarrow> 'f world \<Rightarrow> string option \<times> 'f world" where
  "log_error cid e w =
     log_event cid ''calculation_error'' (''Error: '' @ e) (Some [(''error'', JStr e)]) w"

definition error_data :: "string \<Rightarrow> 'f json" where
  "error_data e = JObj [(''type'', JStr ''error''), (''message'', JStr e)]"

text \<open>
  Lines 143 to 152: the two journal writes of a step share one \<open>try\<close>, whose handler only
  prints; when the first write raises, the second is not made.
\<close>

definition linear_step_message :: "'f float_ops \<Rightarrow> 'f \<Rightarrow> int \<Rightarrow> 'f \<Rightarrow> string" where
  "linear_step_message ops b i linear_res =
     ''Step '' @ str_int i @ '': '' @ linear_operation ops b i @ '' = '' @ str_float ops linear_res"

definition exponential_step_message :: "'f float_ops \<Rightarrow> 'f \<Rightarrow> int \<Rightarrow> 'f \<Rightarrow> string" where
  "exponential_step_message ops b i exponential_res =
     ''Step '' @ str_int i @ '': '' @ exponential_operation ops b i @ '' = ''
       @ str_float ops exponential_res"

definition linear_step_payload :: "int \<Rightarrow> 'f \<Rightarrow> (string \<times> 'f json) list" where
  "linear_step_payload i linear_res =
     [(''step'', JInt i), (''result'', JFloat linear_res), (''type'', JStr ''linear'')]"

definition exponential_step_payload :: "int \<Rightarrow> 'f \<Rightarrow> (string \<times> 'f json) list" where
  "exponential_step_payload i exponential_res =
     [(''step'', JInt i), (''result'', JFloat exponential_res), (''type'', JStr ''exponential'')]"

definition log_step ::
  "'f float_ops \<Rightarrow> 'f CalculationRequest \<Rightarrow> calc_id \<Rightarrow> int \<Rightarrow> 'f \<Rightarrow> 'f \<Rightarrow> 'f world \<Rightarrow> 'f world" where
  "log_step ops request cid i linear_res exponential_res w =
     (case log_event cid ''linear_step''
             (linear_step_message ops (base request) i linear_res)
             (Some (linear_step_payload i linear_res)) w of
        (Some e, w1) \<Rightarrow> w1
      | (None, w1) \<Rightarrow>
          snd (log_event cid ''exponential_step''
                 (exponential_step_message ops (base request) i exponential_res)
                 (Some (exponential_step_payload i exponential_res)) w1))"

text \<open>
  Lines 118 to 155, the loop over \<open>range(1, request.exponent + 1)\<close>: the messages yielded,
  the world afterwards and \<open>str(e)\<close> of the exception that left the loop, if one did.
\<close>

fun step_loop ::
  "'f float_ops \<Rightarrow> 'f CalculationRequest \<Rightarrow> calc_id \<Rightarrow> int list \<Rightarrow> 'f world \<Rightarrow>
     'f json list \<times> 'f world \<times> string option" where
  "step_loop ops request cid [] w = ([], w, None)"
| "step_loop ops request cid (i # rest) w =
     (let linear_res = mul_int ops (base request) i
      in case math_pow ops (base request) i of
           Inl e \<Rightarrow> ([], w, Some e)
         | Inr exponential_res \<Rightarrow>
             (let msg = step_data ops request i linear_res exponential_res (now w);
                  w1 = log_step ops request cid i linear_res exponential_res w;
                  w2 = sleep 10 w1
              in case step_loop ops request cid rest w2 of
                   (msgs, w3, r) \<Rightarrow> (msg # msgs, w3, r)))"

text \<open>Lines 163 to 180: the final update and the completion entry, in one \<open>try\<close>.\<close>

definition finish_record :: "nat \<Rightarrow> nat \<Rightarrow> 'f \<Rightarrow> 'f \<Rightarrow> int \<Rightarrow> 'f world \<Rightarrow> 'f world" where
  "finish_record oid completed linear_final exponential_final n w =
     (case update_calculation oid completed linear_final exponential_final n w of
        (Some e, w1) \<Rightarrow> w1
      | (None, w1) \<Rightarrow>
          snd (log_event (ObjectIdStr oid) ''calculation_completed''
                 ''Calculation completed successfully'' None w1))"

definition new_calculation_doc :: "'f CalculationRequest \<Rightarrow> nat \<Rightarrow> 'f calculation_doc" where
  "new_calculation_doc request started =
     \<lparr>doc_base = base request, doc_exponent = exponent request, status = ''in_progress'',
      started_at = started, completed_at = None, linear_result = None,
      exponential_result = None, total_steps = None\<rparr>"

definition started_message :: "'f float_ops \<Rightarrow> 'f CalculationRequest \<Rightarrow> string" where
  "started_message ops request =
     ''Starting calculation: base='' @ str_float ops (base request)
       @ '', exponent='' @ str_int (exponent request)"

definition started_payload :: "'f CalculationRequest \<Rightarrow> (string \<times> 'f json) list" where
  "started_payload request = [(''base'', JFloat (base request)), (''exponent'', JInt (exponent request))]"

text \<open>
  The body of the \<open>try\<close> of \<open>generate_calculation_events\<close> (lines 79 to 193): the messages
  yielded, the world, and for an exception that reached the outer handler its \<open>str\<close>
  together with the calculation id, when \<open>calculation_id\<close> was bound by then.
\<close>

definition generate_try ::
  "'f float_ops \<Rightarrow> 'f CalculationRequest \<Rightarrow> 'f world \<Rightarrow>
     'f json list \<times> 'f world \<times> (string \<times> calc_id option) option" where
  "generate_try ops request w =
     (if le_zero ops (base request) then
        ([validation_error ''Base must be positive''], w, None)
      else if exponent request \<le> 0 \<or> exponent request > 100 then
        ([validation_error ''Exponent must be between 1 and 100''], w, None)
      else
        (let started = now w
         in case insert_calculation (new_calculation_doc request started) w of
              (Inl e, w1) \<Rightarrow> ([], w1, Some (e, None))
            | (Inr oid, w1) \<Rightarrow>
                (let cid = ObjectIdStr oid;
                     start = start_event cid request
                 in case log_event cid ''calculation_started'' (started_message ops request)
                           (Some (started_payload request)) w1 of
                      (Some e, w2) \<Rightarrow> ([start], w2, Some (e, Some cid))
                    | (None, w2) \<Rightarrow>
                        (case step_loop ops request cid [1..exponent request] (sleep 1 w2) of
                           (msgs, w3, Some e) \<Rightarrow> (start # msgs, w3, Some (e, Some cid))
                         | (msgs, w3, None) \<Rightarrow>
                             (let linear_final = mul_int ops (base request) (exponent request)
                              in case math_pow ops (base request) (exponent request) of
                                   Inl e \<Rightarrow> (start # msgs, w3, Some (e, Some cid))
                                 | Inr exponential_final \<Rightarrow>
                                     (let completed = now w3;
                                          w4 = finish_record oid completed linear_final
                                                 exponential_final (exponent request) w3
                                      in (start # msgs @
                                            [completion_data cid linear_final exponential_final
                                               (exponent request) started completed],
                                          w4, None)))))))"

text \<open>
  \<open>generate_calculation_events\<close> with its outer handler (lines 195 to 202): the error
  message is yielded, then the error entry is written when an id exists, a failure of
  that write being passed over.
\<close>

definition generate_calculation_events ::
  "'f float_ops \<Rightarrow> 'f CalculationRequest \<Rightarrow> 'f world \<Rightarrow> 'f json list \<times> 'f world" where
  "generate_calculation_events ops request w =
     (case generate_try ops request w of
        (msgs, w1, None) \<Rightarrow> (msgs, w1)
      | (msgs, w1, Some (e, None)) \<Rightarrow> (msgs @ [error_data e], w1)
      | (msgs, w1, Some (e, Some cid)) \<Rightarrow>
          (msgs @ [error_data e],
           snd (log_error cid e w1)))"

record 'f StreamingResponse =
  status_code :: nat
  media_type :: string
  headers :: "(string \<times> string) list"
  body :: "'f json list"

text \<open>\<open>calculate_growth_stream\<close>: a \<open>StreamingResponse\<close>, whose status code is the default 200.\<close>

definition calculate_growth_stream ::
  "'f float_ops \<Rightarrow> 'f CalculationRequest \<Rightarrow> 'f world \<Rightarrow> 'f StreamingResponse \<times> 'f world" where
  "calculate_growth_stream ops request w =
     (case generate_calculation_events ops request w of
        (msgs, w1) \<Rightarrow>
          (\<lparr>status_code = 200, media_type = ''text/event-stream'',
            headers = [(''Cache-Control'', ''no-cache, no-transform''),
                       (''Connection'', ''keep-alive''),
                       (''X-Accel-Buffering'', ''no''),
                       (''Content-Type'', ''text/event-stream; charset=utf-8'')],
            body = msgs\<rparr>, w1))"

text \<open>
  The route \<open>@app.post("/api/calculate/stream")\<close> declares its parameter as
  \<open>request: CalculationRequest\<close>. The framework checks the body of the HTTP request against
  that model before \<open>calculate_growth_stream\<close> is called, and answers with status 422 and
  a JSON description when the body does not fit. That check belongs to FastAPI and
  pydantic, so it is a parameter: \<open>None\<close> for a body that is refused.
\<close>

datatype 'f http_response = EventStream "'f StreamingResponse" | UnprocessableEntity

fun http_status :: "'f http_response \<Rightarrow> nat" where
  "http_status (EventStream r) = status_code r"
| "http_status UnprocessableEntity = 422"

definition post_calculate_stream ::
  "('b \<Rightarrow> 'f CalculationRequest option) \<Rightarrow> 'f float_ops \<Rightarrow> 'b \<Rightarrow> 'f world \<Rightarrow>
     'f http_response \<times> 'f world" where
  "post_calculate_stream validate ops body_in w =
     (case validate body_in of
        None \<Rightarrow> (UnprocessableEntity, w)
      | Some request \<Rightarrow>
          (case calculate_growth_stream ops request w of (r, w1) \<Rightarrow> (EventStream r, w1)))"

text \<open>
  A check of the body for the fields of \<open>CalculationRequest\<close> (lines 33 to 35): an object
  with a float \<open>base\<close> and an int \<open>exponent\<close> fits, an object that lacks one of the two
  fields does not. The conversions that pydantic makes for other bodies are not modelled.
\<close>

definition typed_body :: "'f json \<Rightarrow> 'f CalculationRequest option" where
  "typed_body body_in =
     (case (field ''base'' body_in, field ''exponent'' body_in) of
        (Some (JFloat b), Some (JInt n)) \<Rightarrow> Some \<lparr>base = b, exponent = n\<rparr>
      | _ \<Rightarrow> None)"

section \<open>The synchronous endpoint\<close>

record 'f StepLog =
  step :: int
  operation :: string
  result :: 'f
  log_timestamp :: string

record 'f CalculationResponse =
  resp_calculation_id :: calc_id
  resp_base :: 'f
  resp_exponent :: int
  resp_linear_result :: 'f
  resp_exponential_result :: 'f
  linear_logs :: "'f StepLog list"
  exponential_logs :: "'f StepLog list"
  resp_total_steps :: int
  resp_started_at :: string
  resp_completed_at :: string

text \<open>
  What the caller of \<open>calculate_growth\<close> gets: the response, an \<open>HTTPException\<close> with its
  status code and detail, or another exception, which leaves the function unhandled.
\<close>

datatype 'f outcome = Returned "'f CalculationResponse" | HTTPException nat string | Raised string

text \<open>Lines 250 to 267: the loop only fills the two log lists; it writes nothing.\<close>

fun growth_loop ::
  "'f float_ops \<Rightarrow> 'f CalculationRequest \<Rightarrow> nat \<Rightarrow> int list \<Rightarrow>
     string + ('f StepLog list \<times> 'f StepLog list)" where
  "growth_loop ops request t [] = Inr ([], [])"
| "growth_loop ops request t (i # rest) =
     (let linear_res = mul_int ops (base request) i;
          l = \<lparr>step = i, operation = linear_operation ops (base request) i,
               result = linear_res, log_timestamp = isoformat t\<rparr>
      in case math_pow ops (base request) i of
           Inl e \<Rightarrow> Inl e
         | Inr exponential_res \<Rightarrow>
             (let x = \<lparr>step = i, operation = exponential_operation ops (base request) i,
                       result = exponential_res, log_timestamp = isoformat t\<rparr>
              in case growth_loop ops request t rest of
                   Inl e \<Rightarrow> Inl e
                 | Inr (ls, xs) \<Rightarrow> Inr (l # ls, x # xs)))"

text \<open>
  The body of the \<open>try\<close> of \<open>calculate_growth\<close> (lines 223 to 300), with the value of
  \<open>calculation_id if 'calculation_id' in locals() else "unknown"\<close> at its end.
\<close>

definition calculate_growth_try ::
  "'f float_ops \<Rightarrow> 'f CalculationRequest \<Rightarrow> 'f world \<Rightarrow> 'f outcome \<times> calc_id \<times> 'f world" where
  "calculate_growth_try ops request w =
     (if le_zero ops (base request) then
        (HTTPException 400 ''Base must be positive'', Unknown, w)
      else if exponent request \<le> 0 \<or> exponent request > 100 then
        (HTTPException 400 ''Exponent must be between 1 and 100'', Unknown, w)
      else
        (let started = now w
         in case insert_calculation (new_calculation_doc request started) w of
              (Inl e, w1) \<Rightarrow> (Raised e, Unknown, w1)
            | (Inr oid, w1) \<Rightarrow>
                (let cid = ObjectIdStr oid
                 in case log_event cid ''calculation_started'' (started_message ops request)
                           (Some (started_payload request)) w1 of
                      (Some e, w2) \<Rightarrow> (Raised e, cid, w2)
                    | (None, w2) \<Rightarrow>
                        (case growth_loop ops request (now w2) [1..exponent request] of
                           Inl e \<Rightarrow> (Raised e, cid, w2)
                         | Inr (ls, xs) \<Rightarrow>
                             (let linear_final = mul_int ops (base request) (exponent request)
                              in case math_pow ops (base request) (exponent request) of
                                   Inl e \<Rightarrow> (Raised e, cid, w2)
                                 | Inr exponential_final \<Rightarrow>
                                     (let completed = now w2
                                      in case update_calculation oid completed linear_final
                                                exponential_final (exponent request) w2 of
                                           (Some e, w3) \<Rightarrow> (Raised e, cid, w3)
                                         | (None, w3) \<Rightarrow>
                                             (case log_event cid ''calculation_completed''
                                                     ''Calculation completed successfully'' None w3 of
                                                (Some e, w4) \<Rightarrow> (Raised e, cid, w4)
                                              | (None, w4) \<Rightarrow>
                                                  (Returned
                                                     \<lparr>resp_calculation_id = cid,
                                                      resp_base = base request,
                                                      resp_exponent = exponent request,
                                                      resp_linear_result = linear_final,
                                                      resp_exponential_result = exponential_final,
                                                      linear_logs = ls,
                                                      exponential_logs = xs,
                                                      resp_total_steps = exponent request,
                                                      resp_started_at = isoformat started,
                                                      resp_completed_at = isoformat completed\<rparr>,
                                                   cid, w4))))))))"

text \<open>
  \<open>calculate_growth\<close> with its handlers (lines 302 to 307): an \<open>HTTPException\<close> is raised
  again as it is; any other exception is journaled and becomes \<open>HTTPException(500)\<close>,
  unless that journal write raises in its turn.
\<close>

definition calculate_growth ::
  "'f float_ops \<Rightarrow> 'f CalculationRequest \<Rightarrow> 'f world \<Rightarrow> 'f outcome \<times> 'f world" where
  "calculate_growth ops request w =
     (case calculate_growth_try ops request w of
        (Raised e, cid, w1) \<Rightarrow>
          (case log_error cid e w1 of
             (Some e', w2) \<Rightarrow> (Raised e', w2)
           | (None, w2) \<Rightarrow> (HTTPException 500 e, w2))
      | (Returned r, cid, w1) \<Rightarrow> (Returned r, w1)
      | (HTTPException c d, cid, w1) \<Rightarrow> (HTTPException c d, w1))"

section \<open>Floats with small integral values\<close>

text \<open>
  On floats whose value is an integer, with results far below \<open>2^53\<close>, the product and the
  power are exact and \<open>math.pow\<close> does not raise: there the operations are those of the
  integers, and \<open>2.0\<close> is formatted as \<open>2.0\<close>.
\<close>

definition integral_ops :: "int float_ops" where
  "integral_ops =
     \<lparr>le_zero = (\<lambda>x. x \<le> 0), mul_int = (\<lambda>x i. x * i),
      math_pow = (\<lambda>x i. Inr (x ^ nat i)), str_float = (\<lambda>x. str_int x @ ''.0'')\<rparr>"

definition empty_world :: "string option list \<Rightarrow> 'f world" where
  "empty_world fs = \<lparr>calculations = [], events = [], next_oid = 0, now = 0, faults = fs, issued = []\<rparr>"

text \<open>
  The same integers with the range of a double: \<open>math.pow\<close> raises
  \<open>OverflowError("math range error")\<close> when the power is \<open>2^1024\<close> or more. A power of two
  below that bound is a double, and its product with 1 and its first power are exact.
  The text of so large a float is not the one Python prints; no statement depends on it.
\<close>

definition range_ops :: "int float_ops" where
  "range_ops =
     \<lparr>le_zero = (\<lambda>x. x \<le> 0), mul_int = (\<lambda>x i. x * i),
      math_pow = (\<lambda>x i. if 2 ^ 1024 \<le> x ^ nat i then Inl ''math range error'' else Inr (x ^ nat i)),
      str_float = (\<lambda>x. str_int x @ ''.0'')\<rparr>"

section \<open>Vocabulary of the properties\<close>

text \<open>The store accepts the next \<open>n\<close> calls.\<close>

definition accepted :: "nat \<Rightarrow> 'f world \<Rightarrow> bool" where
  "accepted n w = (set (take n (faults w)) \<subseteq> {None})"

text \<open>\<open>math.pow(b, i)\<close> raises for no \<open>i\<close> of the list.\<close>

definition no_overflow :: "'f float_ops \<Rightarrow> 'f \<Rightarrow> int list \<Rightarrow> bool" where
  "no_overflow ops b is = list_all (\<lambda>i. \<not> isl (math_pow ops b i)) is"

text \<open>
  The messages of a run that nothing interrupts, for the record id \<open>oid\<close> and the start
  time \<open>t\<close>: the start message, one step message for each index from 1 to the exponent,
  one second apart, and the complete message.
\<close>

definition uninterrupted_stream :: "'f float_ops \<Rightarrow> 'f CalculationRequest \<Rightarrow> nat \<Rightarrow> nat \<Rightarrow> 'f json list" where
  "uninterrupted_stream ops request oid t =
     start_event (ObjectIdStr oid) request #
     map (\<lambda>i. step_data ops request i (mul_int ops (base request) i)
                (projr (math_pow ops (base request) i)) (t + 1 + 10 * nat (i - 1)))
       [1..exponent request] @
     [completion_data (ObjectIdStr oid) (mul_int ops (base request) (exponent request))
        (projr (math_pow ops (base request) (exponent request))) (exponent request)
        t (t + 1 + 10 * nat (exponent request))]"

text \<open>An event document without its timestamp.\<close>

definition entry :: "'f event_doc \<Rightarrow> calc_id \<times> string \<times> string \<times> (string \<times> 'f json) list option" where
  "entry e = (calculation_id e, event_type e, message e, data e)"

text \<open>
  The two journal entries of step \<open>i\<close>, without timestamps: the linear one with the
  product, the exponential one with the power.
\<close>

definition step_entries ::
  "'f float_ops \<Rightarrow> 'f CalculationRequest \<Rightarrow> calc_id \<Rightarrow> int \<Rightarrow>
     (calc_id \<times> string \<times> string \<times> (string \<times> 'f json) list option) list" where
  "step_entries ops request cid i =
     [(cid, ''linear_step'',
       linear_step_message ops (base request) i (mul_int ops (base request) i),
       Some (linear_step_payload i (mul_int ops (base request) i))),
      (cid, ''exponential_step'',
       exponential_step_message ops (base request) i (projr (math_pow ops (base request) i)),
       Some (exponential_step_payload i (projr (math_pow ops (base request) i))))]"

text \<open>
  The steps that the loop performs: those before the first index at which \<open>math.pow\<close>
  raises; and the text of the exception raised there, if there is one.
\<close>

definition performed :: "'f float_ops \<Rightarrow> 'f \<Rightarrow> int list \<Rightarrow> int list" where
  "performed ops b is = takeWhile (\<lambda>i. \<not> isl (math_pow ops b i)) is"

definition first_overflow :: "'f float_ops \<Rightarrow> 'f \<Rightarrow> int list \<Rightarrow> string option" where
  "first_overflow ops b is =
     (case dropWhile (\<lambda>i. \<not> isl (math_pow ops b i)) is of
        [] \<Rightarrow> None
      | i # rest \<Rightarrow> Some (projl (math_pow ops b i)))"

text \<open>
  The world in which a streamed run sends its final update: after the record creation,
  the start entry, the first sleep and the loop.
\<close>

definition before_final_update :: "'f float_ops \<Rightarrow> 'f CalculationRequest \<Rightarrow> 'f world \<Rightarrow> 'f world" where
  "before_final_update ops request w =
     fst (snd (step_loop ops request (ObjectIdStr (next_oid w)) [1..exponent request]
       (sleep 1 (snd (log_event (ObjectIdStr (next_oid w)) ''calculation_started''
          (started_message ops request) (Some (started_payload request))
          (snd (insert_calculation (new_calculation_doc request (now w)) w)))))))"

section \<open>How the store calls change the world\<close>

lemma store_call_fields [simp]:
  "now (snd (store_call r w)) = now w"
  "calculations (snd (store_call r w)) = calculations w"
  "events (snd (store_call r w)) = events w"
  "next_oid (snd (store_call r w)) = next_oid w"
  "faults (snd (store_call r w)) = tl (faults w)"
  "issued (snd (store_call r w)) = issued w @ [r]"
  by (simp_all add: store_call_def)

lemma store_call_accepted: "accepted (Suc n) w \<Longrightarrow> fst (store_call r w) = None"
  by (cases "faults w") (simp_all add: store_call_def accepted_def)

lemma accepted_tl: "accepted (Suc n) w \<Longrightarrow> faults w' = tl (faults w) \<Longrightarrow> accepted n w'"
  by (cases "faults w") (simp_all add: accepted_def)

lemma log_event_fields [simp]:
  "now (snd (log_event cid ty msg d w)) = now w"
  "calculations (snd (log_event cid ty msg d w)) = calculations w"
  "faults (snd (log_event cid ty msg d w)) = tl (faults w)"
  "issued (snd (log_event cid ty msg d w)) = issued w @ [InsertEvent (event_doc_of cid ty msg d w)]"
  by (simp_all add: log_event_def store_call_def Let_def split: prod.splits option.splits list.splits)

lemma log_event_accepted:
  "accepted (Suc n) w \<Longrightarrow> fst (log_event cid ty msg d w) = None"
  by (cases "faults w") (simp_all add: log_event_def store_call_def accepted_def Let_def)

lemma log_event_None:
  assumes "fst (log_event cid ty msg d w) = None"
  shows "events (snd (log_event cid ty msg d w)) = events w @ [(next_oid w, event_doc_of cid ty msg d w)]"
    and "next_oid (snd (log_event cid ty msg d w)) = Suc (next_oid w)"
  using assms
  by (simp_all add: log_event_def store_call_def Let_def split: prod.splits option.splits list.splits)

lemma log_event_Some:
  assumes "fst (log_event cid ty msg d w) = Some e"
  shows "events (snd (log_event cid ty msg d w)) = events w"
    and "next_oid (snd (log_event cid ty msg d w)) = next_oid w"
  using assms
  by (simp_all add: log_event_def store_call_def Let_def split: prod.splits option.splits list.splits)

lemma log_step_fields [simp]:
  "now (log_step ops request cid i l x w) = now w"
  "calculations (log_step ops request cid i l x w) = calculations w"
proof -
  obtain r w1 where lw: "log_event cid ''linear_step'' (linear_step_message ops (base request) i l)
             (Some (linear_step_payload i l)) w = (r, w1)"
    by (cases "log_event cid ''linear_step'' (linear_step_message ops (base request) i l)
             (Some (linear_step_payload i l)) w") 
  have f: "now w1 = now w" "calculations w1 = calculations w"
    using log_event_fields(1,2)[of cid "''linear_step''" "linear_step_message ops (base request) i l"
      "Some (linear_step_payload i l)" w] lw by simp_all
  show "now (log_step ops request cid i l x w) = now w"
    using lw f by (cases r) (simp_all add: log_step_def)
  show "calculations (log_step ops request cid i l x w) = calculations w"
    using lw f by (cases r) (simp_all add: log_step_def)
qed

lemma sleep_fields [simp]:
  "now (sleep n w) = now w + n"
  "calculations (sleep n w) = calculations w"
  "events (sleep n w) = events w"
  "next_oid (sleep n w) = next_oid w"
  "faults (sleep n w) = faults w"
  "issued (sleep n w) = issued w"
  by (simp_all add: sleep_def)

lemma step_loop_Inl:
  "math_pow ops (base request) i = Inl e \<Longrightarrow>
     step_loop ops request cid (i # rest) w = ([], w, Some e)"
  by (simp add: Let_def)

lemma step_loop_Inr:
  "math_pow ops (base request) i = Inr x \<Longrightarrow>
     step_loop ops request cid (i # rest) w =
       (step_data ops request i (mul_int ops (base request) i) x (now w)
          # fst (step_loop ops request cid rest
                   (sleep 10 (log_step ops request cid i (mul_int ops (base request) i) x w))),
        snd (step_loop ops request cid rest
               (sleep 10 (log_step ops request cid i (mul_int ops (base request) i) x w))))"
  by (simp add: Let_def split: prod.splits)

declare step_loop.simps(2) [simp del]

lemma step_loop_calculations:
  "calculations (fst (snd (step_loop ops request cid is w))) = calculations w"
proof (induction "is" arbitrary: w)
  case Nil
  show ?case by simp
next
  case (Cons i rest)
  show ?case
  proof (cases "math_pow ops (base request) i")
    case (Inl e)
    then show ?thesis by (simp add: step_loop_Inl)
  next
    case (Inr x)
    then show ?thesis by (simp add: step_loop_Inr Cons.IH)
  qed
qed

lemma step_loop_no_overflow:
  "no_overflow ops (base request) is \<Longrightarrow>
     snd (snd (step_loop ops request cid is w)) = None \<and>
     now (fst (snd (step_loop ops request cid is w))) = now w + 10 * length is"
proof (induction "is" arbitrary: w)
  case Nil
  show ?case by simp
next
  case (Cons i rest)
  from Cons.prems obtain x where x: "math_pow ops (base request) i = Inr x"
    by (cases "math_pow ops (base request) i") (simp_all add: no_overflow_def)
  from Cons.prems have rest: "no_overflow ops (base request) rest"
    by (simp add: no_overflow_def)
  show ?case
    using Cons.IH [OF rest] by (simp add: step_loop_Inr [OF x])
qed

lemma step_loop_messages:
  "no_overflow ops (base request) [a..b] \<Longrightarrow>
     fst (step_loop ops request cid [a..b] w) =
       map (\<lambda>i. step_data ops request i (mul_int ops (base request) i)
                  (projr (math_pow ops (base request) i)) (now w + 10 * nat (i - a))) [a..b]"
proof (induction a b arbitrary: w rule: upto.induct)
  case (1 a b)
  show ?case
  proof (cases "a \<le> b")
    case False
    then show ?thesis by simp
  next
    case True
    then have unfold: "[a..b] = a # [a + 1..b]"
      by (simp add: upto_rec1)
    from "1.prems" unfold obtain x where x: "math_pow ops (base request) a = Inr x"
      by (cases "math_pow ops (base request) a") (simp_all add: no_overflow_def)
    from "1.prems" unfold have rest: "no_overflow ops (base request) [a + 1..b]"
      by (simp add: no_overflow_def)
    have shift: "map (\<lambda>i. step_data ops request i (mul_int ops (base request) i)
                  (projr (math_pow ops (base request) i)) (now w + 10 + 10 * nat (i - (a + 1)))) [a + 1..b]
        = map (\<lambda>i. step_data ops request i (mul_int ops (base request) i)
                  (projr (math_pow ops (base request) i)) (now w + 10 * nat (i - a))) [a + 1..b]"
    proof (rule map_cong)
      fix i assume "i \<in> set [a + 1..b]"
      then have "a + 1 \<le> i" by simp
      then have "now w + 10 + 10 * nat (i - (a + 1)) = now w + 10 * nat (i - a)" by linarith
      then show "step_data ops request i (mul_int ops (base request) i)
                  (projr (math_pow ops (base request) i)) (now w + 10 + 10 * nat (i - (a + 1)))
        = step_data ops request i (mul_int ops (base request) i)
                  (projr (math_pow ops (base request) i)) (now w + 10 * nat (i - a))" by (simp only:)
    qed simp
    have "fst (step_loop ops request cid (a # [a + 1..b]) w) =
        step_data ops request a (mul_int ops (base request) a) x (now w) #
        map (\<lambda>i. step_data ops request i (mul_int ops (base request) i)
                  (projr (math_pow ops (base request) i)) (now w + 10 * nat (i - a))) [a + 1..b]"
      using "1.IH" [OF True rest] shift by (simp add: step_loop_Inr [OF x])
    then show ?thesis
      using x by (subst (1 2) unfold) simp
  qed
qed


lemma insert_calculation_fields [simp]:
  "now (snd (insert_calculation d w)) = now w"
  "events (snd (insert_calculation d w)) = events w"
  "faults (snd (insert_calculation d w)) = tl (faults w)"
  "issued (snd (insert_calculation d w)) = issued w @ [InsertCalculation d]"
  by (simp_all add: insert_calculation_def store_call_def split: prod.splits option.splits list.splits)

lemma insert_calculation_Inr:
  assumes "insert_calculation d w = (Inr oid, w1)"
  shows "oid = next_oid w"
    and "calculations w1 = calculations w @ [(next_oid w, d)]"
    and "next_oid w1 = Suc (next_oid w)"
  using assms
  by (auto simp: insert_calculation_def store_call_def split: prod.splits option.splits list.splits)

lemma insert_calculation_Inl:
  assumes "insert_calculation d w = (Inl e, w1)"
  shows "calculations w1 = calculations w" and "next_oid w1 = next_oid w"
  using assms
  by (auto simp: insert_calculation_def store_call_def split: prod.splits option.splits list.splits)

lemma insert_calculation_accepted:
  "accepted (Suc n) w \<Longrightarrow> fst (insert_calculation d w) = Inr (next_oid w)"
  by (cases "faults w")
     (simp_all add: insert_calculation_def store_call_def accepted_def)

lemma no_overflow_last:
  assumes "no_overflow ops b [1..n]" and "1 \<le> n"
  shows "math_pow ops b n = Inr (projr (math_pow ops b n))"
proof -
  from assms have "\<not> isl (math_pow ops b n)"
    by (simp add: no_overflow_def list_all_iff)
  then show ?thesis by (cases "math_pow ops b n") simp_all
qed

lemma generate_try_ok:
  assumes base: "\<not> le_zero ops (base request)"
    and lo: "1 \<le> exponent request" and hi: "exponent request \<le> 100"
    and acc: "accepted 2 w"
    and pow: "no_overflow ops (base request) [1..exponent request]"
  shows "fst (generate_try ops request w) = uninterrupted_stream ops request (next_oid w) (now w)"
    and "snd (snd (generate_try ops request w)) = None"
    and "fst (snd (generate_try ops request w)) =
           finish_record (next_oid w) (now w + 1 + 10 * nat (exponent request))
             (mul_int ops (base request) (exponent request))
             (projr (math_pow ops (base request) (exponent request))) (exponent request)
             (fst (snd (step_loop ops request (ObjectIdStr (next_oid w)) [1..exponent request]
                (sleep 1 (snd (log_event (ObjectIdStr (next_oid w)) ''calculation_started''
                   (started_message ops request) (Some (started_payload request))
                   (snd (insert_calculation (new_calculation_doc request (now w)) w))))))))"
proof -
  let ?d = "new_calculation_doc request (now w)"
  let ?cid = "ObjectIdStr (next_oid w)"
  define w1 where "w1 = snd (insert_calculation ?d w)"
  have acc2: "accepted (Suc (Suc 0)) w" using acc by (simp add: numeral_2_eq_2)
  have ins: "insert_calculation ?d w = (Inr (next_oid w), w1)"
    using insert_calculation_accepted [OF acc2, of ?d] by (simp add: w1_def prod_eq_iff)
  have acc1: "accepted (Suc 0) w1"
    by (rule accepted_tl [OF acc2]) (simp add: w1_def)
  define w2 where "w2 = snd (log_event ?cid ''calculation_started'' (started_message ops request)
                           (Some (started_payload request)) w1)"
  have started: "log_event ?cid ''calculation_started'' (started_message ops request)
                           (Some (started_payload request)) w1 = (None, w2)"
    using log_event_accepted [OF acc1] by (simp add: w2_def prod_eq_iff)
  have now2: "now w2 = now w" by (simp add: w2_def w1_def)
  define r where "r = step_loop ops request ?cid [1..exponent request] (sleep 1 w2)"
  have r3: "snd (snd r) = None"
    and now3: "now (fst (snd r)) = now w + 1 + 10 * nat (exponent request)"
    using step_loop_no_overflow [OF pow, of ?cid "sleep 1 w2"] lo
    by (simp_all add: r_def now2)
  have msgs: "fst r = map (\<lambda>i. step_data ops request i (mul_int ops (base request) i)
                (projr (math_pow ops (base request) i)) (now w + 1 + 10 * nat (i - 1)))
       [1..exponent request]"
    using step_loop_messages [OF pow, of ?cid "sleep 1 w2"] by (simp add: r_def now2)
  have loop: "step_loop ops request ?cid [1..exponent request] (sleep 1 w2) = (fst r, fst (snd r), None)"
    using r3 by (simp add: r_def prod_eq_iff)
  have final: "math_pow ops (base request) (exponent request)
      = Inr (projr (math_pow ops (base request) (exponent request)))"
    by (rule no_overflow_last [OF pow lo])
  have valid: "\<not> (exponent request \<le> 0 \<or> exponent request > 100)"
    using lo hi by simp
  have body: "generate_try ops request w =
      (uninterrupted_stream ops request (next_oid w) (now w),
       finish_record (next_oid w) (now (fst (snd r))) (mul_int ops (base request) (exponent request))
         (projr (math_pow ops (base request) (exponent request))) (exponent request) (fst (snd r)),
       None)"
  proof -
    obtain v where v: "math_pow ops (base request) (exponent request) = Inr v"
      using final by blast
    show ?thesis
      unfolding generate_try_def uninterrupted_stream_def
      using base valid loop
      by (simp add: ins started Let_def msgs now3 v)
  qed
  show "fst (generate_try ops request w) = uninterrupted_stream ops request (next_oid w) (now w)"
    by (simp add: body)
  show "snd (snd (generate_try ops request w)) = None"
    by (simp add: body)
  show "fst (snd (generate_try ops request w)) =
           finish_record (next_oid w) (now w + 1 + 10 * nat (exponent request))
             (mul_int ops (base request) (exponent request))
             (projr (math_pow ops (base request) (exponent request))) (exponent request)
             (fst (snd (step_loop ops request (ObjectIdStr (next_oid w)) [1..exponent request]
                (sleep 1 (snd (log_event (ObjectIdStr (next_oid w)) ''calculation_started''
                   (started_message ops request) (Some (started_payload request))
                   (snd (insert_calculation (new_calculation_doc request (now w)) w))))))))"
    unfolding body by (simp add: now3) (simp add: r_def w2_def w1_def)
qed


lemma generate_events_ok:
  assumes "\<not> le_zero ops (base request)"
    and "1 \<le> exponent request" and "exponent request \<le> 100"
    and "accepted 2 w"
    and "no_overflow ops (base request) [1..exponent request]"
  shows "fst (generate_calculation_events ops request w)
           = uninterrupted_stream ops request (next_oid w) (now w)"
  using generate_try_ok(1,2) [OF assms]
  by (cases "generate_try ops request w") (simp add: generate_calculation_events_def)

lemma step_messages_of_stream:
  "map (field ''step'')
       (filter (\<lambda>m. field ''type'' m = Some (JStr ''step'')) (uninterrupted_stream ops request oid t))
     = map (\<lambda>i. Some (JInt i)) [1..exponent request]"
  by (simp add: uninterrupted_stream_def start_event_def completion_data_def step_data_def
      filter_map o_def)

text \<open>The definitions to unfold when a run is evaluated on a concrete input.\<close>

lemmas eval_defs = generate_calculation_events_def generate_try_def integral_ops_def empty_world_def
  insert_calculation_def store_call_def log_event_def log_error_def Let_def sleep_def log_step_def
  finish_record_def update_calculation_def step_loop.simps(2) new_calculation_doc_def event_doc_of_def

section \<open>The messages of a streamed run\<close>

text \<open>
  Claim C1, as amended. For every valid request whose record creation and start entry the
  store accepts and for which \<open>math.pow\<close> raises at no step, the streamed endpoint
  sends the start message, then the step messages of the indices 1 to the exponent, in
  increasing order and each once, then the complete message; the totals of the complete
  message are the product and the power of base and exponent, the values that the last
  step message carries. This holds whatever the store does with the later calls.
\<close>

theorem stream_steps_and_totals:
  assumes "\<not> le_zero ops (base request)"
    and "1 \<le> exponent request" and "exponent request \<le> 100"
    and "accepted 2 w"
    and "no_overflow ops (base request) [1..exponent request]"
  shows "fst (generate_calculation_events ops request w) =
           start_event (ObjectIdStr (next_oid w)) request #
           map (\<lambda>i. step_data ops request i (mul_int ops (base request) i)
                      (projr (math_pow ops (base request) i)) (now w + 1 + 10 * nat (i - 1)))
             [1..exponent request] @
           [completion_data (ObjectIdStr (next_oid w))
              (mul_int ops (base request) (exponent request))
              (projr (math_pow ops (base request) (exponent request))) (exponent request)
              (now w) (now w + 1 + 10 * nat (exponent request))] \<and>
         map (field ''step'')
           (filter (\<lambda>m. field ''type'' m = Some (JStr ''step''))
              (fst (generate_calculation_events ops request w)))
           = map (\<lambda>i. Some (JInt i)) [1..exponent request]"
  using generate_events_ok [OF assms] step_messages_of_stream [of ops request "next_oid w" "now w"]
  by (simp add: uninterrupted_stream_def)

theorem stream_steps_and_totals_witness:
  "map (field ''step'')
     (fst (generate_calculation_events integral_ops \<lparr>base = 2, exponent = 3\<rparr>
            (empty_world [None, None, Some ''down''])))
     = [None, Some (JInt 1), Some (JInt 2), Some (JInt 3), None] \<and>
   field ''linear_result''
     (last (fst (generate_calculation_events integral_ops \<lparr>base = 2, exponent = 3\<rparr>
            (empty_world [None, None, Some ''down''])))) = Some (JFloat 6) \<and>
   field ''exponential_result''
     (last (fst (generate_calculation_events integral_ops \<lparr>base = 2, exponent = 3\<rparr>
            (empty_world [None, None, Some ''down''])))) = Some (JFloat 8)"
proof -
  have h: "\<not> le_zero integral_ops (base \<lparr>base = 2 :: int, exponent = 3\<rparr>)"
    "1 \<le> exponent \<lparr>base = 2 :: int, exponent = 3\<rparr>"
    "exponent \<lparr>base = 2 :: int, exponent = 3\<rparr> \<le> 100"
    "accepted 2 (empty_world [None, None, Some ''down''] :: int world)"
    "no_overflow integral_ops (base \<lparr>base = 2 :: int, exponent = 3\<rparr>)
       [1..exponent \<lparr>base = 2 :: int, exponent = 3\<rparr>]"
    by (simp_all add: integral_ops_def accepted_def empty_world_def no_overflow_def list_all_iff)
  show ?thesis
    using stream_steps_and_totals [OF h]
    by (simp add: start_event_def step_data_def completion_data_def integral_ops_def upto.simps)
qed

text \<open>
  Claim C1 as stated fails for a valid request when the record cannot be created: with base
  2, exponent 3 and a store that refuses the first call, the only message is the error
  message; no step message and no complete message is sent.
\<close>

theorem stream_without_store_counterexample:
  "\<not> le_zero integral_ops (base \<lparr>base = 2 :: int, exponent = 3\<rparr>) \<and>
   exponent \<lparr>base = 2 :: int, exponent = 3\<rparr> \<in> {1..100} \<and>
   fst (generate_calculation_events integral_ops \<lparr>base = 2, exponent = 3\<rparr>
          (empty_world [Some ''down''])) = [error_data ''down'']"
  by (simp add: eval_defs)

section \<open>Validation\<close>

text \<open>
  Claim C2, as amended. A request whose base is at most zero is answered with the base
  error, and a request whose base passes that check and whose exponent lies outside 1 to
  100 is answered with the exponent error: on the streamed endpoint by a single error
  message, on the synchronous endpoint by an HTTPException with status 400. In both
  cases the world is returned as it was: no record is created, no journal entry is
  written and no call is sent to the store.
\<close>

theorem validation_rejects_before_persistence:
  "(le_zero ops (base request) \<longrightarrow>
      generate_calculation_events ops request w = ([validation_error ''Base must be positive''], w) \<and>
      calculate_growth ops request w = (HTTPException 400 ''Base must be positive'', w)) \<and>
   (\<not> le_zero ops (base request) \<and> (exponent request < 1 \<or> 100 < exponent request) \<longrightarrow>
      generate_calculation_events ops request w =
        ([validation_error ''Exponent must be between 1 and 100''], w) \<and>
      calculate_growth ops request w = (HTTPException 400 ''Exponent must be between 1 and 100'', w))"
  by (auto simp: generate_calculation_events_def generate_try_def calculate_growth_def
      calculate_growth_try_def)

theorem validation_rejects_before_persistence_witness:
  "generate_calculation_events integral_ops \<lparr>base = 0, exponent = 5\<rparr> (empty_world [Some ''down''])
     = ([validation_error ''Base must be positive''], empty_world [Some ''down'']) \<and>
   calculate_growth integral_ops \<lparr>base = 0, exponent = 5\<rparr> (empty_world [Some ''down''])
     = (HTTPException 400 ''Base must be positive'', empty_world [Some ''down'']) \<and>
   generate_calculation_events integral_ops \<lparr>base = 2, exponent = 101\<rparr> (empty_world [Some ''down''])
     = ([validation_error ''Exponent must be between 1 and 100''], empty_world [Some ''down'']) \<and>
   calculate_growth integral_ops \<lparr>base = 2, exponent = 101\<rparr> (empty_world [Some ''down''])
     = (HTTPException 400 ''Exponent must be between 1 and 100'', empty_world [Some ''down''])"
  using validation_rejects_before_persistence
          [of integral_ops "\<lparr>base = 0, exponent = 5\<rparr>" "empty_world [Some ''down'']"]
        validation_rejects_before_persistence
          [of integral_ops "\<lparr>base = 2, exponent = 101\<rparr>" "empty_world [Some ''down'']"]
  by (simp add: integral_ops_def)

text \<open>
  Claim C2 as stated fails where both fields are invalid: with base -1 and exponent 0 the
  exponent is outside 1 to 100, and both endpoints answer with the base error, not with
  the exponent error.
\<close>

theorem invalid_exponent_with_invalid_base_counterexample:
  "exponent \<lparr>base = - 1 :: int, exponent = 0\<rparr> \<notin> {1..100} \<and>
   fst (generate_calculation_events integral_ops \<lparr>base = - 1, exponent = 0\<rparr> (empty_world []))
     = [validation_error ''Base must be positive''] \<and>
   fst (generate_calculation_events integral_ops \<lparr>base = - 1, exponent = 0\<rparr> (empty_world []))
     \<noteq> [validation_error ''Exponent must be between 1 and 100''] \<and>
   fst (calculate_growth integral_ops \<lparr>base = - 1, exponent = 0\<rparr> (empty_world []))
     = HTTPException 400 ''Base must be positive''"
  by (simp add: generate_calculation_events_def generate_try_def calculate_growth_def
      calculate_growth_try_def integral_ops_def validation_error_def)

section \<open>The payload of a journal entry\<close>

text \<open>
  Claim C10. The document that \<open>log_event\<close> builds and sends to the store has a data
  field that is not null, the empty dictionary standing in for a missing payload; so a
  journal whose entries all have a payload keeps that property under \<open>log_event\<close>.
\<close>

theorem log_event_data_never_null:
  "data (event_doc_of cid ty msg d w) \<noteq> None \<and>
   data (event_doc_of cid ty msg None w) = Some [] \<and>
   issued (snd (log_event cid ty msg d w)) = issued w @ [InsertEvent (event_doc_of cid ty msg d w)] \<and>
   ((\<forall>e \<in> snd ` set (events w). data e \<noteq> None) \<longrightarrow>
      (\<forall>e \<in> snd ` set (events (snd (log_event cid ty msg d w))). data e \<noteq> None))"
  by (auto simp: event_doc_of_def or_empty_def log_event_def store_call_def Let_def
        split: list.splits option.splits)

theorem log_event_data_never_null_witness:
  "events (empty_world [] :: int world) = [] \<and>
   list_all (\<lambda>e. data (snd e) \<noteq> None)
     (events (snd (log_event (ObjectIdStr 0) ''calculation_completed''
        ''Calculation completed successfully'' None (empty_world [] :: int world)))) \<and>
   data (event_doc_of (ObjectIdStr 0) ''calculation_completed''
        ''Calculation completed successfully'' None (empty_world [] :: int world)) = Some []"
proof -
  have pre: "events (empty_world [] :: int world) = []"
    by (simp add: empty_world_def)
  then have "\<forall>e \<in> snd ` set (events (empty_world [] :: int world)). data e \<noteq> None"
    by simp
  then show ?thesis
    using pre
      log_event_data_never_null [of "ObjectIdStr 0" "''calculation_completed''"
        "''Calculation completed successfully''" None "empty_world [] :: int world"]
    by (simp add: list_all_iff)
qed

section \<open>The final update\<close>

lemma accepted_without_faults: "accepted n (w\<lparr>faults := []\<rparr>)"
  by (simp add: accepted_def)

lemma update_calculation_fields [simp]:
  "now (snd (update_calculation i t lin ex n w)) = now w"
  "events (snd (update_calculation i t lin ex n w)) = events w"
  "next_oid (snd (update_calculation i t lin ex n w)) = next_oid w"
  "faults (snd (update_calculation i t lin ex n w)) = tl (faults w)"
  "issued (snd (update_calculation i t lin ex n w)) = issued w @ [UpdateCalculation i]"
  by (simp_all add: update_calculation_def store_call_def split: prod.splits option.splits list.splits)

lemma update_calculation_Some:
  "fst (update_calculation i t lin ex n w) = Some e \<Longrightarrow>
     calculations (snd (update_calculation i t lin ex n w)) = calculations w"
  by (simp add: update_calculation_def store_call_def split: prod.splits option.splits list.splits)

lemma finish_record_update_failed:
  "fst (update_calculation i t lin ex n w) = Some e \<Longrightarrow>
     finish_record i t lin ex n w = snd (update_calculation i t lin ex n w)"
  by (cases "update_calculation i t lin ex n w") (simp add: finish_record_def)

lemma no_error_in_stream:
  "list_all (\<lambda>m. field ''type'' m \<noteq> Some (JStr ''error'')) (uninterrupted_stream ops request oid t)"
  by (simp add: uninterrupted_stream_def start_event_def completion_data_def step_data_def
      list_all_iff)

section \<open>A run that fails after its record was created\<close>

lemma log_event_eq:
  assumes "log_event cid ty msg d w = (r, w')"
  shows "calculations w' = calculations w" and "now w' = now w"
    and "issued w' = issued w @ [InsertEvent (event_doc_of cid ty msg d w)]"
  using assms log_event_fields [of cid ty msg d w] by simp_all

lemma step_loop_eq:
  "step_loop ops request cid is w = (msgs, w', r) \<Longrightarrow> calculations w' = calculations w"
  using step_loop_calculations [of ops request cid "is" w] by simp

lemma log_error_fields [simp]:
  "calculations (snd (log_error cid e w)) = calculations w"
  "issued (snd (log_error cid e w))
     = issued w @ [InsertEvent (event_doc_of cid ''calculation_error'' (''Error: '' @ e)
                                  (Some [(''error'', JStr e)]) w)]"
  by (simp_all add: log_error_def)

lemma insert_calculation_InrD:
  "insert_calculation d w = (Inr oid, w1) \<Longrightarrow>
     oid = next_oid w \<and> calculations w1 = calculations w @ [(next_oid w, d)]"
  by (auto simp: insert_calculation_def store_call_def split: prod.splits option.splits list.splits)

lemma insert_calculation_InlD:
  "insert_calculation d w = (Inl e, w1) \<Longrightarrow> calculations w1 = calculations w"
  by (auto simp: insert_calculation_def store_call_def split: prod.splits option.splits list.splits)

lemma generate_try_raised:
  assumes "generate_try ops request w = (msgs, w1, Some (e, Some cid))"
  shows "cid = ObjectIdStr (next_oid w) \<and>
         calculations w1 = calculations w @ [(next_oid w, new_calculation_doc request (now w))]"
  using assms
  by (auto simp: generate_try_def Let_def
      split: if_splits prod.splits sum.splits option.splits
      dest!: insert_calculation_InrD log_event_eq(1) step_loop_eq)

lemma update_first_set:
  "(k, d) \<in> set (update_first i f xs) \<Longrightarrow> (k, d) \<in> set xs \<or> (\<exists>d0. d = f d0)"
  by (induction i f xs rule: update_first.induct) (auto split: if_splits)

lemma update_calculation_status:
  assumes "(k, d) \<in> set (calculations (snd (update_calculation i t lin ex n w)))"
  shows "(k, d) \<in> set (calculations w) \<or> status d = ''completed''"
  using assms
  by (auto simp: update_calculation_def store_call_def set_completed_def
      split: prod.splits option.splits list.splits dest!: update_first_set)

lemma finish_record_status:
  assumes "(k, d) \<in> set (calculations (finish_record i t lin ex n w))"
  shows "(k, d) \<in> set (calculations w) \<or> status d = ''completed''"
proof (cases "update_calculation i t lin ex n w")
  case (Pair r w1)
  have w1: "w1 = snd (update_calculation i t lin ex n w)" using Pair by simp
  from assms Pair have "(k, d) \<in> set (calculations w1)"
    by (cases r) (simp_all add: finish_record_def)
  then show ?thesis using update_calculation_status [of k d i t lin ex n w] w1 by simp
qed

lemma generate_try_status:
  assumes "(k, d) \<in> set (calculations (fst (snd (generate_try ops request w))))"
  shows "(k, d) \<in> set (calculations w) \<or>
         (k, d) = (next_oid w, new_calculation_doc request (now w)) \<or> status d = ''completed''"
  using assms
  by (auto simp: generate_try_def Let_def
      split: if_splits prod.splits sum.splits option.splits
      dest!: insert_calculation_InrD insert_calculation_InlD log_event_eq(1) step_loop_eq
             finish_record_status)


lemma log_error_accepted:
  assumes "accepted 1 w"
  shows "events (snd (log_error cid e w))
           = events w @ [(next_oid w, event_doc_of cid ''calculation_error'' (''Error: '' @ e)
                                        (Some [(''error'', JStr e)]) w)]"
proof -
  have "accepted (Suc 0) w" using assms by simp
  then have "fst (log_event cid ''calculation_error'' (''Error: '' @ e) (Some [(''error'', JStr e)]) w) = None"
    by (rule log_event_accepted)
  then show ?thesis
    by (simp add: log_error_def log_event_None)
qed

lemma generate_events_split:
  "generate_calculation_events ops request w =
     (case snd (snd (generate_try ops request w)) of
        None \<Rightarrow> (fst (generate_try ops request w), fst (snd (generate_try ops request w)))
      | Some (e, None) \<Rightarrow>
          (fst (generate_try ops request w) @ [error_data e], fst (snd (generate_try ops request w)))
      | Some (e, Some cid) \<Rightarrow>
          (fst (generate_try ops request w) @ [error_data e],
           snd (log_error cid e (fst (snd (generate_try ops request w))))))"
  by (cases "generate_try ops request w")
     (simp add: generate_calculation_events_def split: option.splits prod.splits)

lemma generate_events_calculations:
  "calculations (snd (generate_calculation_events ops request w))
     = calculations (fst (snd (generate_try ops request w)))"
  by (simp add: generate_events_split split: option.splits prod.splits)

text \<open>
  Claim C3, as amended. When a streamed run has created its record and an exception
  reaches the handler, the record is left as it was created, with status in_progress (no
  status error exists in the code); the handler sends the error message as the last
  message and issues the journal write of a calculation_error entry for that record, which
  is in the journal when the store accepts the write. Every record that a run leaves in
  the store is a record that was there before, unchanged, or the record the run created,
  or a record with status completed: no record is marked error or set back to in_progress.
\<close>

theorem failed_run_keeps_record_in_progress:
  "(snd (snd (generate_try ops request w)) = Some (e, Some cid) \<longrightarrow>
      cid = ObjectIdStr (next_oid w) \<and>
      calculations (snd (generate_calculation_events ops request w))
        = calculations w @ [(next_oid w, new_calculation_doc request (now w))] \<and>
      status (new_calculation_doc request (now w)) = ''in_progress'' \<and>
      fst (generate_calculation_events ops request w)
        = fst (generate_try ops request w) @ [error_data e] \<and>
      issued (snd (generate_calculation_events ops request w))
        = issued (fst (snd (generate_try ops request w))) @
          [InsertEvent (event_doc_of cid ''calculation_error'' (''Error: '' @ e)
                          (Some [(''error'', JStr e)]) (fst (snd (generate_try ops request w))))] \<and>
      (accepted 1 (fst (snd (generate_try ops request w))) \<longrightarrow>
         map (entry \<circ> snd) (events (snd (generate_calculation_events ops request w)))
           = map (entry \<circ> snd) (events (fst (snd (generate_try ops request w)))) @
             [(cid, ''calculation_error'', ''Error: '' @ e, Some [(''error'', JStr e)])])) \<and>
   ((k, d) \<in> set (calculations (snd (generate_calculation_events ops request w))) \<longrightarrow>
      (k, d) \<in> set (calculations w) \<or>
      (k, d) = (next_oid w, new_calculation_doc request (now w)) \<or> status d = ''completed'')"
proof (intro conjI impI)
  assume raised: "snd (snd (generate_try ops request w)) = Some (e, Some cid)"
  then have tr: "generate_try ops request w
      = (fst (generate_try ops request w), fst (snd (generate_try ops request w)), Some (e, Some cid))"
    by (simp add: prod_eq_iff)
  note facts = generate_try_raised [OF tr]
  show "cid = ObjectIdStr (next_oid w)" using facts by simp
  show "calculations (snd (generate_calculation_events ops request w))
        = calculations w @ [(next_oid w, new_calculation_doc request (now w))]"
    using facts by (simp add: generate_events_calculations)
  show "status (new_calculation_doc request (now w)) = ''in_progress''"
    by (simp add: new_calculation_doc_def)
  show "fst (generate_calculation_events ops request w)
        = fst (generate_try ops request w) @ [error_data e]"
    using raised by (simp add: generate_events_split)
  show "issued (snd (generate_calculation_events ops request w))
        = issued (fst (snd (generate_try ops request w))) @
          [InsertEvent (event_doc_of cid ''calculation_error'' (''Error: '' @ e)
                          (Some [(''error'', JStr e)]) (fst (snd (generate_try ops request w))))]"
    using raised by (simp add: generate_events_split)
  assume "accepted 1 (fst (snd (generate_try ops request w)))"
  then show "map (entry \<circ> snd) (events (snd (generate_calculation_events ops request w)))
           = map (entry \<circ> snd) (events (fst (snd (generate_try ops request w)))) @
             [(cid, ''calculation_error'', ''Error: '' @ e, Some [(''error'', JStr e)])]"
    using raised
    by (simp add: generate_events_split log_error_accepted entry_def event_doc_of_def or_empty_def)
next
  assume "(k, d) \<in> set (calculations (snd (generate_calculation_events ops request w)))"
  then show "(k, d) \<in> set (calculations w) \<or>
      (k, d) = (next_oid w, new_calculation_doc request (now w)) \<or> status d = ''completed''"
    using generate_try_status [of k d ops request w] by (simp add: generate_events_calculations)
qed

theorem failed_run_keeps_record_in_progress_witness:
  "snd (snd (generate_try integral_ops \<lparr>base = 2, exponent = 3\<rparr> (empty_world [None, Some ''down''])))
     = Some (''down'', Some (ObjectIdStr 0)) \<and>
   map (status \<circ> snd) (calculations (snd (generate_calculation_events integral_ops
       \<lparr>base = 2, exponent = 3\<rparr> (empty_world [None, Some ''down'']))))
     = [''in_progress''] \<and>
   last (fst (generate_calculation_events integral_ops \<lparr>base = 2, exponent = 3\<rparr>
       (empty_world [None, Some ''down'']))) = error_data ''down'' \<and>
   map (entry \<circ> snd) (events (snd (generate_calculation_events integral_ops
       \<lparr>base = 2, exponent = 3\<rparr> (empty_world [None, Some ''down'']))))
     = [(ObjectIdStr 0, ''calculation_error'', ''Error: down'', Some [(''error'', JStr ''down'')])]"
proof -
  have raised: "snd (snd (generate_try integral_ops \<lparr>base = 2, exponent = 3\<rparr>
      (empty_world [None, Some ''down'']))) = Some (''down'', Some (ObjectIdStr 0))"
    by (simp add: eval_defs)
  have acc: "accepted 1 (fst (snd (generate_try integral_ops \<lparr>base = 2, exponent = 3\<rparr>
      (empty_world [None, Some ''down'']))))"
    by (simp add: eval_defs accepted_def)
  have ev: "events (fst (snd (generate_try integral_ops \<lparr>base = 2, exponent = 3\<rparr>
      (empty_world [None, Some ''down''])))) = []"
    by (simp add: eval_defs)
  have calcs: "calculations (empty_world [None, Some ''down''] :: int world) = []"
    by (simp add: empty_world_def)
  note run = failed_run_keeps_record_in_progress [of integral_ops "\<lparr>base = 2, exponent = 3\<rparr>"
      "empty_world [None, Some ''down'']" "''down''" "ObjectIdStr 0"]
  show ?thesis
    using run raised acc ev calcs
    by (simp add: new_calculation_doc_def)
qed

text \<open>
  Claim C3 as stated fails: with base 2, exponent 3 and a store that accepts the record
  and refuses the start entry, the run fails after the record was created and the record
  still has status in_progress, not error, when the run is over.
\<close>

theorem record_never_marked_error_counterexample:
  "snd (snd (generate_try integral_ops \<lparr>base = 2, exponent = 3\<rparr> (empty_world [None, Some ''down''])))
     = Some (''down'', Some (ObjectIdStr 0)) \<and>
   map (\<lambda>(k, d). (k, status d)) (calculations (snd (generate_calculation_events integral_ops
       \<lparr>base = 2, exponent = 3\<rparr> (empty_world [None, Some ''down'']))))
     = [(0, ''in_progress'')] \<and>
   ''in_progress'' \<noteq> ''error''"
  by (simp add: eval_defs)


section \<open>The outcomes of the synchronous endpoint\<close>

lemma calculate_growth_split:
  "calculate_growth ops request w =
     (case fst (calculate_growth_try ops request w) of
        Raised e \<Rightarrow>
          (case fst (log_error (fst (snd (calculate_growth_try ops request w))) e
                      (snd (snd (calculate_growth_try ops request w)))) of
             Some e' \<Rightarrow> (Raised e', snd (log_error (fst (snd (calculate_growth_try ops request w))) e
                      (snd (snd (calculate_growth_try ops request w)))))
           | None \<Rightarrow> (HTTPException 500 e, snd (log_error (fst (snd (calculate_growth_try ops request w))) e
                      (snd (snd (calculate_growth_try ops request w))))))
      | Returned r \<Rightarrow> (Returned r, snd (snd (calculate_growth_try ops request w)))
      | HTTPException c d \<Rightarrow> (HTTPException c d, snd (snd (calculate_growth_try ops request w))))"
  by (cases "calculate_growth_try ops request w")
     (simp add: calculate_growth_def split: outcome.splits option.splits prod.splits)

lemma calculate_growth_try_rejects:
  "(\<exists>c d. fst (calculate_growth_try ops request w) = HTTPException c d) \<longleftrightarrow>
     (le_zero ops (base request) \<or> exponent request \<le> 0 \<or> exponent request > 100)"
  by (auto simp: calculate_growth_try_def Let_def
      split: if_splits prod.splits sum.splits option.splits)

lemma calculate_growth_try_400:
  "fst (calculate_growth_try ops request w) = HTTPException c d \<Longrightarrow> c = 400"
  by (auto simp: calculate_growth_try_def Let_def
      split: if_splits prod.splits sum.splits option.splits)

lemma calculate_growth_try_id:
  assumes "\<not> le_zero ops (base request)" "1 \<le> exponent request" "exponent request \<le> 100"
    and "accepted 1 w"
  shows "fst (snd (calculate_growth_try ops request w)) = ObjectIdStr (next_oid w)"
proof -
  have "accepted (Suc 0) w" using assms(4) by simp
  then have "fst (insert_calculation (new_calculation_doc request (now w)) w) = Inr (next_oid w)"
    by (rule insert_calculation_accepted)
  then obtain w1 where "insert_calculation (new_calculation_doc request (now w)) w = (Inr (next_oid w), w1)"
    by (cases "insert_calculation (new_calculation_doc request (now w)) w") simp
  then show ?thesis
    using assms(1-3)
    by (simp add: calculate_growth_try_def Let_def split: prod.splits sum.splits option.splits)
qed


lemma log_error_refused:
  assumes "fst (log_error cid e w) = Some e'"
  shows "events (snd (log_error cid e w)) = events w"
  using assms by (simp add: log_error_def log_event_Some)

lemma log_error_accepted_result:
  assumes "accepted 1 w"
  shows "fst (log_error cid e w) = None"
proof -
  have "accepted (Suc 0) w" using assms by simp
  then show ?thesis unfolding log_error_def by (rule log_event_accepted)
qed

text \<open>
  What the synchronous endpoint returns. It answers with status 400 exactly when
  validation fails, and raises no HTTPException with a status other than 400 and 500.
  Once the record is created, \<open>calculation_id\<close> is its id; every exception of the body is
  caught and the journal write of a calculation_error entry is issued under the id bound
  by then. When the store accepts that write, the entry is in the journal and the caller
  gets status 500 with the text of the exception; when the store refuses it, nothing is
  journaled and the exception of the journal write leaves the function.
\<close>

lemma synchronous_outcomes:
  "((\<exists>d. fst (calculate_growth ops request w) = HTTPException 400 d) \<longleftrightarrow>
      (le_zero ops (base request) \<or> exponent request \<le> 0 \<or> exponent request > 100)) \<and>
   (fst (calculate_growth ops request w) = HTTPException c d \<longrightarrow> c = 400 \<or> c = 500) \<and>
   (\<not> le_zero ops (base request) \<and> 1 \<le> exponent request \<and> exponent request \<le> 100 \<and>
      accepted 1 w \<longrightarrow>
      fst (snd (calculate_growth_try ops request w)) = ObjectIdStr (next_oid w)) \<and>
   (fst (calculate_growth_try ops request w) = Raised e \<longrightarrow>
      issued (snd (calculate_growth ops request w))
        = issued (snd (snd (calculate_growth_try ops request w))) @
          [InsertEvent (event_doc_of (fst (snd (calculate_growth_try ops request w)))
             ''calculation_error'' (''Error: '' @ e) (Some [(''error'', JStr e)])
             (snd (snd (calculate_growth_try ops request w))))] \<and>
      (accepted 1 (snd (snd (calculate_growth_try ops request w))) \<longrightarrow>
         fst (calculate_growth ops request w) = HTTPException 500 e \<and>
         map (entry \<circ> snd) (events (snd (calculate_growth ops request w)))
           = map (entry \<circ> snd) (events (snd (snd (calculate_growth_try ops request w)))) @
             [(fst (snd (calculate_growth_try ops request w)), ''calculation_error'',
               ''Error: '' @ e, Some [(''error'', JStr e)])]) \<and>
      (\<forall>e'. fst (log_error (fst (snd (calculate_growth_try ops request w))) e
                   (snd (snd (calculate_growth_try ops request w)))) = Some e' \<longrightarrow>
         fst (calculate_growth ops request w) = Raised e' \<and>
         events (snd (calculate_growth ops request w))
           = events (snd (snd (calculate_growth_try ops request w)))))"
proof (intro conjI impI allI)
  show "(\<exists>d. fst (calculate_growth ops request w) = HTTPException 400 d) \<longleftrightarrow>
      (le_zero ops (base request) \<or> exponent request \<le> 0 \<or> exponent request > 100)"
  proof
    assume "\<exists>d. fst (calculate_growth ops request w) = HTTPException 400 d"
    then have "\<exists>c d. fst (calculate_growth_try ops request w) = HTTPException c d"
      by (auto simp: calculate_growth_split split: outcome.splits option.splits)
    then show "le_zero ops (base request) \<or> exponent request \<le> 0 \<or> exponent request > 100"
      by (simp add: calculate_growth_try_rejects)
  next
    assume "le_zero ops (base request) \<or> exponent request \<le> 0 \<or> exponent request > 100"
    then obtain c d where cd: "fst (calculate_growth_try ops request w) = HTTPException c d"
      using calculate_growth_try_rejects [of ops request w] by blast
    then have "c = 400" by (rule calculate_growth_try_400)
    then show "\<exists>d. fst (calculate_growth ops request w) = HTTPException 400 d"
      using cd by (simp add: calculate_growth_split)
  qed
next
  assume "fst (calculate_growth ops request w) = HTTPException c d"
  then show "c = 400 \<or> c = 500"
    by (auto simp: calculate_growth_split split: outcome.splits option.splits
        dest: calculate_growth_try_400)
next
  assume "\<not> le_zero ops (base request) \<and> 1 \<le> exponent request \<and> exponent request \<le> 100 \<and>
      accepted 1 w"
  then show "fst (snd (calculate_growth_try ops request w)) = ObjectIdStr (next_oid w)"
    by (simp add: calculate_growth_try_id)
next
  assume raised: "fst (calculate_growth_try ops request w) = Raised e"
  show "issued (snd (calculate_growth ops request w))
        = issued (snd (snd (calculate_growth_try ops request w))) @
          [InsertEvent (event_doc_of (fst (snd (calculate_growth_try ops request w)))
             ''calculation_error'' (''Error: '' @ e) (Some [(''error'', JStr e)])
             (snd (snd (calculate_growth_try ops request w))))]"
    using raised by (simp add: calculate_growth_split split: option.splits)
  {
    assume acc: "accepted 1 (snd (snd (calculate_growth_try ops request w)))"
    show "fst (calculate_growth ops request w) = HTTPException 500 e"
      using raised log_error_accepted_result [OF acc]
      by (simp add: calculate_growth_split)
    show "map (entry \<circ> snd) (events (snd (calculate_growth ops request w)))
           = map (entry \<circ> snd) (events (snd (snd (calculate_growth_try ops request w)))) @
             [(fst (snd (calculate_growth_try ops request w)), ''calculation_error'',
               ''Error: '' @ e, Some [(''error'', JStr e)])]"
      using raised log_error_accepted_result [OF acc] log_error_accepted [OF acc]
      by (simp add: calculate_growth_split entry_def event_doc_of_def or_empty_def)
  }
  {
    fix e'
    assume refused: "fst (log_error (fst (snd (calculate_growth_try ops request w))) e
                   (snd (snd (calculate_growth_try ops request w)))) = Some e'"
    show "fst (calculate_growth ops request w) = Raised e'"
      using raised refused by (simp add: calculate_growth_split)
    show "events (snd (calculate_growth ops request w))
           = events (snd (snd (calculate_growth_try ops request w)))"
      using raised refused log_error_refused [OF refused]
      by (simp add: calculate_growth_split)
  }
qed


lemmas sync_eval_defs = calculate_growth_def calculate_growth_try_def integral_ops_def empty_world_def
  insert_calculation_def store_call_def log_event_def log_error_def Let_def
  update_calculation_def new_calculation_doc_def event_doc_of_def

section \<open>The journal entries of the steps\<close>

lemma log_event_healthy:
  assumes "faults w = []"
  shows "faults (snd (log_event cid ty msg d w)) = []"
    and "fst (log_event cid ty msg d w) = None"
    and "map (entry \<circ> snd) (events (snd (log_event cid ty msg d w)))
           = map (entry \<circ> snd) (events w) @ [(cid, ty, msg, Some (or_empty d))]"
  using assms
  by (simp_all add: log_event_def store_call_def Let_def entry_def event_doc_of_def)

lemma log_step_healthy:
  assumes "faults w = []"
  shows "faults (log_step ops request cid i (mul_int ops (base request) i)
                   (projr (math_pow ops (base request) i)) w) = []"
    and "map (entry \<circ> snd) (events (log_step ops request cid i (mul_int ops (base request) i)
                   (projr (math_pow ops (base request) i)) w))
           = map (entry \<circ> snd) (events w) @ step_entries ops request cid i"
proof -
  let ?l = "log_event cid ''linear_step''
              (linear_step_message ops (base request) i (mul_int ops (base request) i))
              (Some (linear_step_payload i (mul_int ops (base request) i))) w"
  have l: "?l = (None, snd ?l)"
    using log_event_healthy(2) [OF assms, of cid "''linear_step''"] by (simp add: prod_eq_iff)
  have f1: "faults (snd ?l) = []"
    by (rule log_event_healthy(1) [OF assms])
  have step: "log_step ops request cid i (mul_int ops (base request) i)
                   (projr (math_pow ops (base request) i)) w
      = snd (log_event cid ''exponential_step''
               (exponential_step_message ops (base request) i (projr (math_pow ops (base request) i)))
               (Some (exponential_step_payload i (projr (math_pow ops (base request) i)))) (snd ?l))"
    unfolding log_step_def by (subst l) simp
  show "faults (log_step ops request cid i (mul_int ops (base request) i)
                   (projr (math_pow ops (base request) i)) w) = []"
    unfolding step by (rule log_event_healthy(1) [OF f1])
  show "map (entry \<circ> snd) (events (log_step ops request cid i (mul_int ops (base request) i)
                   (projr (math_pow ops (base request) i)) w))
           = map (entry \<circ> snd) (events w) @ step_entries ops request cid i"
    unfolding step
    by (simp only: log_event_healthy(3) [OF f1] log_event_healthy(3) [OF assms])
       (simp add: step_entries_def or_empty_def linear_step_payload_def
         exponential_step_payload_def)
qed

lemma step_loop_healthy:
  "faults w = [] \<Longrightarrow> no_overflow ops (base request) is \<Longrightarrow>
     faults (fst (snd (step_loop ops request cid is w))) = [] \<and>
     map (entry \<circ> snd) (events (fst (snd (step_loop ops request cid is w))))
       = map (entry \<circ> snd) (events w) @ concat (map (step_entries ops request cid) is)"
proof (induction "is" arbitrary: w)
  case Nil
  then show ?case by simp
next
  case (Cons i rest)
  from Cons.prems(2) obtain x where x: "math_pow ops (base request) i = Inr x"
    by (cases "math_pow ops (base request) i") (simp_all add: no_overflow_def)
  then have px: "projr (math_pow ops (base request) i) = x" by simp
  from Cons.prems(2) have rest: "no_overflow ops (base request) rest"
    by (simp add: no_overflow_def)
  let ?w = "sleep 10 (log_step ops request cid i (mul_int ops (base request) i) x w)"
  have f: "faults ?w = []"
    using log_step_healthy(1) [OF Cons.prems(1), of ops request cid i] by (simp add: px)
  have ev: "map (entry \<circ> snd) (events ?w)
      = map (entry \<circ> snd) (events w) @ step_entries ops request cid i"
    using log_step_healthy(2) [OF Cons.prems(1), of ops request cid i] by (simp add: px)
  have unfold: "fst (snd (step_loop ops request cid (i # rest) w))
      = fst (snd (step_loop ops request cid rest ?w))"
    by (simp add: step_loop_Inr [OF x])
  show ?case
    unfolding unfold using Cons.IH [OF f rest] by (simp only: ev) simp
qed


lemma insert_calculation_healthy:
  assumes "faults w = []"
  shows "faults (snd (insert_calculation d w)) = []"
    and "events (snd (insert_calculation d w)) = events w"
  using assms by simp_all

lemma finish_record_healthy:
  assumes "faults w = []"
  shows "map (entry \<circ> snd) (events (finish_record oid t lin ex n w))
           = map (entry \<circ> snd) (events w) @
             [(ObjectIdStr oid, ''calculation_completed'', ''Calculation completed successfully'',
               Some [])]"
proof -
  let ?u = "update_calculation oid t lin ex n w"
  have u: "?u = (None, snd ?u)"
    using assms by (simp add: update_calculation_def store_call_def prod_eq_iff)
  have f: "faults (snd ?u) = []" using assms by simp
  have fin: "finish_record oid t lin ex n w
      = snd (log_event (ObjectIdStr oid) ''calculation_completed''
               ''Calculation completed successfully'' None (snd ?u))"
    unfolding finish_record_def by (subst u) simp
  show ?thesis
    unfolding fin
    by (simp only: log_event_healthy(3) [OF f]) (simp add: or_empty_def)
qed

lemma sleep_healthy: "faults w = [] \<Longrightarrow> faults (sleep n w) = []"
  by simp

lemma stream_journal_healthy:
  assumes "\<not> le_zero ops (base request)"
    and "1 \<le> exponent request" and "exponent request \<le> 100"
    and "faults w = []"
    and "no_overflow ops (base request) [1..exponent request]"
  shows "map (entry \<circ> snd) (events (snd (generate_calculation_events ops request w))) =
           map (entry \<circ> snd) (events w) @
           [(ObjectIdStr (next_oid w), ''calculation_started'', started_message ops request,
             Some (started_payload request))] @
           concat (map (step_entries ops request (ObjectIdStr (next_oid w))) [1..exponent request]) @
           [(ObjectIdStr (next_oid w), ''calculation_completed'',
             ''Calculation completed successfully'', Some [])]"
proof -
  let ?cid = "ObjectIdStr (next_oid w)"
  let ?w1 = "snd (insert_calculation (new_calculation_doc request (now w)) w)"
  let ?w2 = "snd (log_event ?cid ''calculation_started'' (started_message ops request)
                    (Some (started_payload request)) ?w1)"
  let ?w3 = "fst (snd (step_loop ops request ?cid [1..exponent request] (sleep 1 ?w2)))"
  have acc: "accepted 2 w" using assms(4) by (simp add: accepted_def)
  have f1: "faults ?w1 = []" using assms(4) by simp
  have e1: "events ?w1 = events w" by simp
  have f2: "faults ?w2 = []" by (rule log_event_healthy(1) [OF f1])
  have e2: "map (entry \<circ> snd) (events ?w2)
      = map (entry \<circ> snd) (events w) @
        [(?cid, ''calculation_started'', started_message ops request, Some (started_payload request))]"
    by (simp only: log_event_healthy(3) [OF f1] e1) (simp add: or_empty_def started_payload_def)
  have f2': "faults (sleep 1 ?w2) = []" by (rule sleep_healthy [OF f2])
  have e2': "events (sleep 1 ?w2) = events ?w2" by simp
  note loop = step_loop_healthy [OF f2' assms(5), of ?cid]
  have f3: "faults ?w3 = []" using loop by (rule conjunct1)
  have e3: "map (entry \<circ> snd) (events ?w3)
      = map (entry \<circ> snd) (events w) @
        [(?cid, ''calculation_started'', started_message ops request, Some (started_payload request))] @
        concat (map (step_entries ops request ?cid) [1..exponent request])"
    by (simp only: conjunct2 [OF loop] e2' e2) simp
  have none: "snd (snd (generate_try ops request w)) = None"
    by (rule generate_try_ok(2) [OF assms(1-3) acc assms(5)])
  have "events (snd (generate_calculation_events ops request w))
      = events (fst (snd (generate_try ops request w)))"
    using none by (simp add: generate_events_split)
  then show ?thesis
    by (simp only: generate_try_ok(3) [OF assms(1-3) acc assms(5)] finish_record_healthy [OF f3] e3)
       simp
qed


lemma insert_calculation_issued:
  "insert_calculation d w = (r, w') \<Longrightarrow> issued w' = issued w @ [InsertCalculation d]"
  using insert_calculation_fields(4) [of d w] by simp

lemma update_calculation_issued:
  "update_calculation i t lin ex n w = (r, w') \<Longrightarrow> issued w' = issued w @ [UpdateCalculation i]"
  using update_calculation_fields(5) [of i t lin ex n w] by simp

lemma log_event_issued:
  "log_event cid ty msg d w = (r, w') \<Longrightarrow>
     issued w' = issued w @ [InsertEvent (event_doc_of cid ty msg d w)]"
  using log_event_fields(4) [of cid ty msg d w] by simp

lemma calculate_growth_try_issued:
  assumes "InsertEvent ev \<in> set (issued (snd (snd (calculate_growth_try ops request w))))"
  shows "InsertEvent ev \<in> set (issued w) \<or>
         event_type ev = ''calculation_started'' \<or> event_type ev = ''calculation_completed''"
  using assms
  by (auto simp: calculate_growth_try_def Let_def event_doc_of_def
      split: if_splits prod.splits sum.splits option.splits
      dest!: insert_calculation_issued update_calculation_issued log_event_issued)

lemma calculate_growth_issued:
  assumes "InsertEvent ev \<in> set (issued (snd (calculate_growth ops request w)))"
  shows "InsertEvent ev \<in> set (issued w) \<or>
         event_type ev = ''calculation_started'' \<or> event_type ev = ''calculation_completed'' \<or>
         event_type ev = ''calculation_error''"
  using assms calculate_growth_try_issued [of ev ops request w]
  by (auto simp: calculate_growth_split event_doc_of_def split: outcome.splits option.splits)

section \<open>A run in which \<open>math.pow\<close> raises\<close>

lemma first_overflow_None: "first_overflow ops b is = None \<longleftrightarrow> no_overflow ops b is"
proof -
  have iff: "dropWhile (\<lambda>i. \<not> isl (math_pow ops b i)) is = [] \<longleftrightarrow> no_overflow ops b is"
    by (simp add: no_overflow_def list_all_iff dropWhile_eq_Nil_conv)
  show ?thesis
  proof (cases "dropWhile (\<lambda>i. \<not> isl (math_pow ops b i)) is")
    case Nil
    have "first_overflow ops b is = None"
      unfolding first_overflow_def Nil by simp
    moreover have "no_overflow ops b is"
      using iff Nil by blast
    ultimately show ?thesis by simp
  next
    case (Cons i rest)
    have "first_overflow ops b is \<noteq> None"
      unfolding first_overflow_def Cons by simp
    moreover have "\<not> no_overflow ops b is"
      using iff Cons by auto
    ultimately show ?thesis by simp
  qed
qed

lemma performed_all: "no_overflow ops b is \<Longrightarrow> performed ops b is = is"
  by (simp add: performed_def no_overflow_def list_all_iff)

lemma step_loop_raised:
  "snd (snd (step_loop ops request cid is w)) = first_overflow ops (base request) is"
proof (induction "is" arbitrary: w)
  case Nil
  show ?case by (simp add: first_overflow_def)
next
  case (Cons i rest)
  show ?case
  proof (cases "math_pow ops (base request) i")
    case (Inl e)
    then show ?thesis by (simp add: step_loop_Inl first_overflow_def)
  next
    case (Inr x)
    then show ?thesis
      using Cons.IH by (simp add: step_loop_Inr first_overflow_def)
  qed
qed

lemma step_loop_performed:
  "fst (step_loop ops request cid [a..b] w) =
     map (\<lambda>i. step_data ops request i (mul_int ops (base request) i)
                (projr (math_pow ops (base request) i)) (now w + 10 * nat (i - a)))
       (performed ops (base request) [a..b])"
proof (induction a b arbitrary: w rule: upto.induct)
  case (1 a b)
  show ?case
  proof (cases "a \<le> b")
    case False
    then show ?thesis by (simp add: performed_def)
  next
    case True
    then have unfold: "[a..b] = a # [a + 1..b]"
      by (simp add: upto_rec1)
    show ?thesis
    proof (cases "math_pow ops (base request) a")
      case (Inl e)
      have "fst (step_loop ops request cid (a # [a + 1..b]) w) = []"
        by (simp add: step_loop_Inl [OF Inl])
      moreover have "performed ops (base request) (a # [a + 1..b]) = []"
        using Inl by (simp add: performed_def)
      ultimately show ?thesis by (subst (1 2) unfold) simp
    next
      case (Inr x)
      have perf: "performed ops (base request) (a # [a + 1..b])
          = a # performed ops (base request) [a + 1..b]"
        using Inr by (simp add: performed_def)
      have sub: "set (performed ops (base request) [a + 1..b]) \<subseteq> set [a + 1..b]"
        unfolding performed_def by (auto dest: set_takeWhileD)
      have shift: "map (\<lambda>i. step_data ops request i (mul_int ops (base request) i)
                  (projr (math_pow ops (base request) i)) (now w + 10 + 10 * nat (i - (a + 1))))
                 (performed ops (base request) [a + 1..b])
        = map (\<lambda>i. step_data ops request i (mul_int ops (base request) i)
                  (projr (math_pow ops (base request) i)) (now w + 10 * nat (i - a)))
                 (performed ops (base request) [a + 1..b])"
      proof (rule map_cong)
        fix i assume "i \<in> set (performed ops (base request) [a + 1..b])"
        then have "i \<in> set [a + 1..b]" using sub by blast
        then have "a + 1 \<le> i" by simp
        then have "now w + 10 + 10 * nat (i - (a + 1)) = now w + 10 * nat (i - a)" by linarith
        then show "step_data ops request i (mul_int ops (base request) i)
                  (projr (math_pow ops (base request) i)) (now w + 10 + 10 * nat (i - (a + 1)))
          = step_data ops request i (mul_int ops (base request) i)
                  (projr (math_pow ops (base request) i)) (now w + 10 * nat (i - a))" by (simp only:)
      qed simp
      have "fst (step_loop ops request cid (a # [a + 1..b]) w) =
          step_data ops request a (mul_int ops (base request) a) x (now w) #
          map (\<lambda>i. step_data ops request i (mul_int ops (base request) i)
                  (projr (math_pow ops (base request) i)) (now w + 10 * nat (i - a)))
              (performed ops (base request) [a + 1..b])"
        using "1.IH" [OF True] shift by (simp add: step_loop_Inr [OF Inr])
      then show ?thesis
        using Inr by (subst (1 2) unfold) (simp add: perf)
    qed
  qed
qed


lemma generate_try_overflow:
  assumes base: "\<not> le_zero ops (base request)"
    and lo: "1 \<le> exponent request" and hi: "exponent request \<le> 100"
    and acc: "accepted 2 w"
    and pow: "first_overflow ops (base request) [1..exponent request] = Some e"
  shows "fst (generate_try ops request w) =
           start_event (ObjectIdStr (next_oid w)) request #
           map (\<lambda>i. step_data ops request i (mul_int ops (base request) i)
                      (projr (math_pow ops (base request) i)) (now w + 1 + 10 * nat (i - 1)))
             (performed ops (base request) [1..exponent request])"
    and "snd (snd (generate_try ops request w)) = Some (e, Some (ObjectIdStr (next_oid w)))"
    and "fst (snd (generate_try ops request w)) = before_final_update ops request w"
proof -
  let ?d = "new_calculation_doc request (now w)"
  let ?cid = "ObjectIdStr (next_oid w)"
  define w1 where "w1 = snd (insert_calculation ?d w)"
  have acc2: "accepted (Suc (Suc 0)) w" using acc by (simp add: numeral_2_eq_2)
  have ins: "insert_calculation ?d w = (Inr (next_oid w), w1)"
    using insert_calculation_accepted [OF acc2, of ?d] by (simp add: w1_def prod_eq_iff)
  have acc1: "accepted (Suc 0) w1"
    by (rule accepted_tl [OF acc2]) (simp add: w1_def)
  define w2 where "w2 = snd (log_event ?cid ''calculation_started'' (started_message ops request)
                           (Some (started_payload request)) w1)"
  have started: "log_event ?cid ''calculation_started'' (started_message ops request)
                           (Some (started_payload request)) w1 = (None, w2)"
    using log_event_accepted [OF acc1] by (simp add: w2_def prod_eq_iff)
  have now2: "now w2 = now w" by (simp add: w2_def w1_def)
  define r where "r = step_loop ops request ?cid [1..exponent request] (sleep 1 w2)"
  have r3: "snd (snd r) = Some e"
    using step_loop_raised [of ops request ?cid "[1..exponent request]" "sleep 1 w2"] pow
    by (simp add: r_def)
  have msgs: "fst r = map (\<lambda>i. step_data ops request i (mul_int ops (base request) i)
                (projr (math_pow ops (base request) i)) (now w + 1 + 10 * nat (i - 1)))
       (performed ops (base request) [1..exponent request])"
    using step_loop_performed [of ops request ?cid 1 "exponent request" "sleep 1 w2"]
    by (simp add: r_def now2)
  have loop: "step_loop ops request ?cid [1..exponent request] (sleep 1 w2) = (fst r, fst (snd r), Some e)"
    using r3 by (simp add: r_def prod_eq_iff)
  have valid: "\<not> (exponent request \<le> 0 \<or> exponent request > 100)"
    using lo hi by simp
  have body: "generate_try ops request w = (start_event ?cid request # fst r, fst (snd r), Some (e, Some ?cid))"
    unfolding generate_try_def
    using base valid loop
    by (simp add: ins started Let_def)
  show "fst (generate_try ops request w) =
           start_event (ObjectIdStr (next_oid w)) request #
           map (\<lambda>i. step_data ops request i (mul_int ops (base request) i)
                      (projr (math_pow ops (base request) i)) (now w + 1 + 10 * nat (i - 1)))
             (performed ops (base request) [1..exponent request])"
    by (simp add: body msgs)
  show "snd (snd (generate_try ops request w)) = Some (e, Some (ObjectIdStr (next_oid w)))"
    by (simp add: body)
  show "fst (snd (generate_try ops request w)) = before_final_update ops request w"
    unfolding body before_final_update_def by (simp add: r_def w2_def w1_def)
qed

lemma generate_events_overflow:
  assumes "\<not> le_zero ops (base request)"
    and "1 \<le> exponent request" and "exponent request \<le> 100"
    and "accepted 2 w"
    and "first_overflow ops (base request) [1..exponent request] = Some e"
  shows "fst (generate_calculation_events ops request w) =
           start_event (ObjectIdStr (next_oid w)) request #
           map (\<lambda>i. step_data ops request i (mul_int ops (base request) i)
                      (projr (math_pow ops (base request) i)) (now w + 1 + 10 * nat (i - 1)))
             (performed ops (base request) [1..exponent request]) @ [error_data e]"
  using generate_try_overflow(1,2) [OF assms]
  by (simp add: generate_events_split)

lemma generate_events_same_messages:
  assumes "\<not> le_zero ops (base request)"
    and "1 \<le> exponent request" and "exponent request \<le> 100"
    and "accepted 2 w" and "accepted 2 w'"
    and "next_oid w' = next_oid w" and "now w' = now w"
  shows "fst (generate_calculation_events ops request w')
           = fst (generate_calculation_events ops request w)"
proof (cases "first_overflow ops (base request) [1..exponent request]")
  case None
  then have pow: "no_overflow ops (base request) [1..exponent request]"
    by (simp add: first_overflow_None)
  show ?thesis
    using generate_events_ok [OF assms(1-3) assms(4) pow]
      generate_events_ok [OF assms(1-3) assms(5) pow] assms(6,7)
    by simp
next
  case (Some e)
  show ?thesis
    using generate_events_overflow [OF assms(1-3) assms(4) Some]
      generate_events_overflow [OF assms(1-3) assms(5) Some] assms(6,7)
    by simp
qed


section \<open>Failures of the later journal writes\<close>

text \<open>
  Claim C5, as amended. For every valid run whose record creation and start entry the
  store accepts, a failure of any later store call, the journal writes of the steps and
  of the completion entry among them, is not fatal: the messages sent are exactly those
  of the same run on a store that accepts every call. So the run ends with its complete
  message whenever \<open>math.pow\<close> raises at no step, which is when the run on a store
  without failures ends so.
\<close>

theorem later_failures_leave_stream:
  assumes "\<not> le_zero ops (base request)"
    and "1 \<le> exponent request" and "exponent request \<le> 100"
    and "accepted 2 w"
  shows "fst (generate_calculation_events ops request w)
           = fst (generate_calculation_events ops request (w\<lparr>faults := []\<rparr>)) \<and>
         (no_overflow ops (base request) [1..exponent request] \<longrightarrow>
            last (fst (generate_calculation_events ops request w))
              = completion_data (ObjectIdStr (next_oid w))
                  (mul_int ops (base request) (exponent request))
                  (projr (math_pow ops (base request) (exponent request))) (exponent request)
                  (now w) (now w + 1 + 10 * nat (exponent request)))"
proof (intro conjI impI)
  show "fst (generate_calculation_events ops request w)
           = fst (generate_calculation_events ops request (w\<lparr>faults := []\<rparr>))"
    using generate_events_same_messages [OF assms(1-3) accepted_without_faults assms(4), of w]
    by simp
next
  assume "no_overflow ops (base request) [1..exponent request]"
  then show "last (fst (generate_calculation_events ops request w))
              = completion_data (ObjectIdStr (next_oid w))
                  (mul_int ops (base request) (exponent request))
                  (projr (math_pow ops (base request) (exponent request))) (exponent request)
                  (now w) (now w + 1 + 10 * nat (exponent request))"
    using generate_events_ok [OF assms] by (simp add: uninterrupted_stream_def)
qed

theorem later_failures_leave_stream_witness:
  "fst (generate_calculation_events integral_ops \<lparr>base = 2, exponent = 2\<rparr>
         (empty_world [None, None, Some ''a'', None, Some ''b'', None, Some ''c'']))
     = fst (generate_calculation_events integral_ops \<lparr>base = 2, exponent = 2\<rparr> (empty_world [])) \<and>
   field ''type''
     (last (fst (generate_calculation_events integral_ops \<lparr>base = 2, exponent = 2\<rparr>
         (empty_world [None, None, Some ''a'', None, Some ''b'', None, Some ''c''])))) = Some (JStr ''complete'')"
proof -
  have h: "\<not> le_zero integral_ops (base \<lparr>base = 2 :: int, exponent = 2\<rparr>)"
    "1 \<le> exponent \<lparr>base = 2 :: int, exponent = 2\<rparr>"
    "exponent \<lparr>base = 2 :: int, exponent = 2\<rparr> \<le> 100"
    "accepted 2 (empty_world [None, None, Some ''a'', None, Some ''b'', None, Some ''c''] :: int world)"
    by (simp_all add: integral_ops_def accepted_def empty_world_def)
  have pow: "no_overflow integral_ops (base \<lparr>base = 2 :: int, exponent = 2\<rparr>)
       [1..exponent \<lparr>base = 2 :: int, exponent = 2\<rparr>]"
    by (simp add: integral_ops_def no_overflow_def list_all_iff)
  have same: "(empty_world [None, None, Some ''a'', None, Some ''b'', None, Some ''c''] :: int world)
      \<lparr>faults := []\<rparr> = empty_world []"
    by (simp add: empty_world_def)
  note run = later_failures_leave_stream [OF h, unfolded same]
  have a: "fst (generate_calculation_events integral_ops \<lparr>base = 2, exponent = 2\<rparr>
         (empty_world [None, None, Some ''a'', None, Some ''b'', None, Some ''c'']))
     = fst (generate_calculation_events integral_ops \<lparr>base = 2, exponent = 2\<rparr> (empty_world []))"
    using run by (rule conjunct1)
  have b: "field ''type''
     (last (fst (generate_calculation_events integral_ops \<lparr>base = 2, exponent = 2\<rparr>
         (empty_world [None, None, Some ''a'', None, Some ''b'', None, Some ''c''])))) = Some (JStr ''complete'')"
    by (simp add: mp [OF conjunct2 [OF run] pow] completion_data_def)
  show ?thesis
    using a b by (rule conjI)
qed

text \<open>The definitions to unfold when a run on floats with a range is evaluated.\<close>

lemmas range_eval_defs = generate_calculation_events_def generate_try_def range_ops_def empty_world_def
  insert_calculation_def store_call_def log_event_def log_error_def Let_def sleep_def log_step_def
  finish_record_def update_calculation_def step_loop.simps(2) new_calculation_doc_def event_doc_of_def

text \<open>
  Claim C5 as stated fails in two ways. The \<open>log_event\<close> call of the start entry (line
  110) is guarded only by the outer handler: when that write is refused, the run stops
  after the start message with an error message. And a run in which a step write is
  refused does not reach its completion when \<open>math.pow\<close> raises: with base \<open>2^600\<close> and
  exponent 2 the second power is beyond the range of a double, and the run ends with an
  error message after the first step.
\<close>

theorem unguarded_failures_counterexample:
  "\<not> le_zero integral_ops (base \<lparr>base = 2 :: int, exponent = 3\<rparr>) \<and>
   exponent \<lparr>base = 2 :: int, exponent = 3\<rparr> \<in> {1..100} \<and>
   fst (generate_calculation_events integral_ops \<lparr>base = 2, exponent = 3\<rparr>
          (empty_world [None, Some ''down'']))
     = [start_event (ObjectIdStr 0) \<lparr>base = 2, exponent = 3\<rparr>, error_data ''down''] \<and>
   \<not> le_zero range_ops (base \<lparr>base = 2 ^ 600 :: int, exponent = 2\<rparr>) \<and>
   exponent \<lparr>base = 2 ^ 600 :: int, exponent = 2\<rparr> \<in> {1..100} \<and>
   map (field ''type'') (fst (generate_calculation_events range_ops \<lparr>base = 2 ^ 600, exponent = 2\<rparr>
          (empty_world [None, None, Some ''down''])))
     = [Some (JStr ''start''), Some (JStr ''step''), Some (JStr ''error'')]"
  by (simp add: eval_defs range_eval_defs upto.simps start_event_def step_data_def error_data_def)


section \<open>A refused final update\<close>

lemma log_event_events:
  "\<exists>xs. events (snd (log_event cid ty msg d w)) = events w @ xs \<and>
        list_all (\<lambda>ev. event_type (snd ev) = ty) xs"
  by (cases "faults w"; cases "hd (faults w)")
     (simp_all add: log_event_def store_call_def Let_def event_doc_of_def)

lemma log_step_events:
  "\<exists>xs. events (log_step ops request cid i l x w) = events w @ xs \<and>
        list_all (\<lambda>ev. event_type (snd ev) = ''linear_step'' \<or>
                        event_type (snd ev) = ''exponential_step'') xs"
proof -
  let ?l = "log_event cid ''linear_step'' (linear_step_message ops (base request) i l)
              (Some (linear_step_payload i l)) w"
  obtain xs where xs: "events (snd ?l) = events w @ xs"
      "list_all (\<lambda>ev. event_type (snd ev) = ''linear_step'') xs"
    using log_event_events [of cid "''linear_step''" _ _ w] by blast
  show ?thesis
  proof (cases "fst ?l")
    case (Some e)
    then have "log_step ops request cid i l x w = snd ?l"
      by (cases ?l) (simp add: log_step_def)
    then show ?thesis using xs by (auto simp: list_all_iff)
  next
    case None
    let ?x = "log_event cid ''exponential_step'' (exponential_step_message ops (base request) i x)
                 (Some (exponential_step_payload i x)) (snd ?l)"
    from None have step: "log_step ops request cid i l x w = snd ?x"
      by (cases ?l) (simp add: log_step_def)
    obtain ys where ys: "events (snd ?x) = events (snd ?l) @ ys"
      "list_all (\<lambda>ev. event_type (snd ev) = ''exponential_step'') ys"
      using log_event_events [of cid "''exponential_step''" _ _ "snd ?l"] by blast
    have "events (log_step ops request cid i l x w) = events w @ (xs @ ys)"
      unfolding step using xs(1) ys(1) by simp
    moreover have "list_all (\<lambda>ev. event_type (snd ev) = ''linear_step'' \<or>
                        event_type (snd ev) = ''exponential_step'') (xs @ ys)"
      using xs(2) ys(2) by (auto simp: list_all_iff)
    ultimately show ?thesis by blast
  qed
qed

lemma step_loop_events:
  "\<exists>xs. events (fst (snd (step_loop ops request cid is w))) = events w @ xs \<and>
        list_all (\<lambda>ev. event_type (snd ev) = ''linear_step'' \<or>
                        event_type (snd ev) = ''exponential_step'') xs"
proof (induction "is" arbitrary: w)
  case Nil
  show ?case by simp
next
  case (Cons i rest)
  show ?case
  proof (cases "math_pow ops (base request) i")
    case (Inl e)
    then show ?thesis by (simp add: step_loop_Inl)
  next
    case (Inr x)
    let ?w = "sleep 10 (log_step ops request cid i (mul_int ops (base request) i) x w)"
    obtain xs where xs: "events ?w = events w @ xs"
      "list_all (\<lambda>ev. event_type (snd ev) = ''linear_step'' \<or>
                        event_type (snd ev) = ''exponential_step'') xs"
      using log_step_events [of ops request cid i "mul_int ops (base request) i" x w] by auto
    obtain ys where ys: "events (fst (snd (step_loop ops request cid rest ?w))) = events ?w @ ys"
      "list_all (\<lambda>ev. event_type (snd ev) = ''linear_step'' \<or>
                        event_type (snd ev) = ''exponential_step'') ys"
      using Cons.IH [of ?w] by blast
    have "events (fst (snd (step_loop ops request cid (i # rest) w))) = events w @ (xs @ ys)"
      using xs(1) ys(1) by (simp add: step_loop_Inr [OF Inr])
    moreover have "list_all (\<lambda>ev. event_type (snd ev) = ''linear_step'' \<or>
                        event_type (snd ev) = ''exponential_step'') (xs @ ys)"
      using xs(2) ys(2) by (auto simp: list_all_iff)
    ultimately show ?thesis by blast
  qed
qed

lemma before_final_update_calculations:
  assumes "accepted 2 w"
  shows "calculations (before_final_update ops request w)
           = calculations w @ [(next_oid w, new_calculation_doc request (now w))]"
proof -
  let ?d = "new_calculation_doc request (now w)"
  have "accepted (Suc (Suc 0)) w" using assms by (simp add: numeral_2_eq_2)
  then have "fst (insert_calculation ?d w) = Inr (next_oid w)"
    by (rule insert_calculation_accepted)
  then have "insert_calculation ?d w = (Inr (next_oid w), snd (insert_calculation ?d w))"
    by (simp add: prod_eq_iff)
  then have "calculations (snd (insert_calculation ?d w)) = calculations w @ [(next_oid w, ?d)]"
    by (rule insert_calculation_Inr(2))
  then show ?thesis
    by (simp add: before_final_update_def step_loop_calculations)
qed

lemma before_final_update_events:
  "\<exists>xs. events (before_final_update ops request w) = events w @ xs \<and>
        list_all (\<lambda>ev. event_type (snd ev) = ''calculation_started'' \<or>
                        event_type (snd ev) = ''linear_step'' \<or>
                        event_type (snd ev) = ''exponential_step'') xs"
proof -
  let ?w1 = "snd (insert_calculation (new_calculation_doc request (now w)) w)"
  let ?w2 = "snd (log_event (ObjectIdStr (next_oid w)) ''calculation_started''
          (started_message ops request) (Some (started_payload request)) ?w1)"
  obtain xs where xs: "events ?w2 = events w @ xs"
      "list_all (\<lambda>ev. event_type (snd ev) = ''calculation_started'') xs"
    using log_event_events [of "ObjectIdStr (next_oid w)" "''calculation_started''" _ _ ?w1]
    by auto
  obtain ys where ys: "events (before_final_update ops request w) = events (sleep 1 ?w2) @ ys"
      "list_all (\<lambda>ev. event_type (snd ev) = ''linear_step'' \<or>
                        event_type (snd ev) = ''exponential_step'') ys"
    unfolding before_final_update_def
    using step_loop_events [of ops request "ObjectIdStr (next_oid w)" "[1..exponent request]" "sleep 1 ?w2"]
    by blast
  have "events (before_final_update ops request w) = events w @ (xs @ ys)"
    using xs(1) ys(1) by simp
  moreover have "list_all (\<lambda>ev. event_type (snd ev) = ''calculation_started'' \<or>
                        event_type (snd ev) = ''linear_step'' \<or>
                        event_type (snd ev) = ''exponential_step'') (xs @ ys)"
    using xs(2) ys(2) by (auto simp: list_all_iff)
  ultimately show ?thesis by blast
qed

text \<open>
  Claim C4, as amended. In the streamed run the final status update is not mandatory.
  For every run that reaches it (a valid request, record creation and start entry
  accepted, \<open>math.pow\<close> raising at no step) and in which the store refuses it, the last
  message is the complete message with the totals and no error message is sent; the
  record of the run is left as it was created, with status in_progress; and the journal
  is the one that the run had before the update, so what the run wrote to it are start
  and step entries only, no completion entry and no error entry.
\<close>

theorem refused_final_update_is_passed_over:
  assumes "\<not> le_zero ops (base request)"
    and "1 \<le> exponent request" and "exponent request \<le> 100"
    and "accepted 2 w"
    and "no_overflow ops (base request) [1..exponent request]"
    and "fst (update_calculation (next_oid w) (now w + 1 + 10 * nat (exponent request))
                (mul_int ops (base request) (exponent request))
                (projr (math_pow ops (base request) (exponent request))) (exponent request)
                (before_final_update ops request w)) = Some e"
  shows "last (fst (generate_calculation_events ops request w))
           = completion_data (ObjectIdStr (next_oid w))
               (mul_int ops (base request) (exponent request))
               (projr (math_pow ops (base request) (exponent request))) (exponent request)
               (now w) (now w + 1 + 10 * nat (exponent request)) \<and>
         list_all (\<lambda>m. field ''type'' m \<noteq> Some (JStr ''error''))
           (fst (generate_calculation_events ops request w)) \<and>
         calculations (snd (generate_calculation_events ops request w))
           = calculations w @ [(next_oid w, new_calculation_doc request (now w))] \<and>
         status (new_calculation_doc request (now w)) = ''in_progress'' \<and>
         events (snd (generate_calculation_events ops request w))
           = events (before_final_update ops request w) \<and>
         list_all (\<lambda>ev. event_type (snd ev) = ''calculation_started'' \<or>
                         event_type (snd ev) = ''linear_step'' \<or>
                         event_type (snd ev) = ''exponential_step'')
           (drop (length (events w)) (events (snd (generate_calculation_events ops request w))))"
proof -
  let ?u = "update_calculation (next_oid w) (now w + 1 + 10 * nat (exponent request))
                (mul_int ops (base request) (exponent request))
                (projr (math_pow ops (base request) (exponent request))) (exponent request)
                (before_final_update ops request w)"
  have none: "snd (snd (generate_try ops request w)) = None"
    by (rule generate_try_ok(2) [OF assms(1-5)])
  have "snd (generate_calculation_events ops request w) = fst (snd (generate_try ops request w))"
    using none by (simp add: generate_events_split)
  also have "\<dots> = finish_record (next_oid w) (now w + 1 + 10 * nat (exponent request))
                (mul_int ops (base request) (exponent request))
                (projr (math_pow ops (base request) (exponent request))) (exponent request)
                (before_final_update ops request w)"
    unfolding before_final_update_def by (rule generate_try_ok(3) [OF assms(1-5)])
  also have "\<dots> = snd ?u"
    by (rule finish_record_update_failed [OF assms(6)])
  finally have final: "snd (generate_calculation_events ops request w) = snd ?u" .
  have calcs: "calculations (snd ?u) = calculations (before_final_update ops request w)"
    by (rule update_calculation_Some [OF assms(6)])
  have evs: "events (snd ?u) = events (before_final_update ops request w)"
    by simp
  obtain xs where xs: "events (before_final_update ops request w) = events w @ xs"
      "list_all (\<lambda>ev. event_type (snd ev) = ''calculation_started'' \<or>
                        event_type (snd ev) = ''linear_step'' \<or>
                        event_type (snd ev) = ''exponential_step'') xs"
    using before_final_update_events [of ops request w] by blast
  have c1: "last (fst (generate_calculation_events ops request w))
           = completion_data (ObjectIdStr (next_oid w))
               (mul_int ops (base request) (exponent request))
               (projr (math_pow ops (base request) (exponent request))) (exponent request)
               (now w) (now w + 1 + 10 * nat (exponent request))"
    using generate_events_ok [OF assms(1-5)] by (simp add: uninterrupted_stream_def)
  have c2: "list_all (\<lambda>m. field ''type'' m \<noteq> Some (JStr ''error''))
           (fst (generate_calculation_events ops request w))"
    by (simp only: generate_events_ok [OF assms(1-5)] no_error_in_stream)
  have c3: "calculations (snd (generate_calculation_events ops request w))
           = calculations w @ [(next_oid w, new_calculation_doc request (now w))]"
    unfolding final calcs by (rule before_final_update_calculations [OF assms(4)])
  have c4: "status (new_calculation_doc request (now w)) = ''in_progress''"
    by (simp add: new_calculation_doc_def)
  have c5: "events (snd (generate_calculation_events ops request w))
           = events (before_final_update ops request w)"
    unfolding final by (rule evs)
  have c6: "list_all (\<lambda>ev. event_type (snd ev) = ''calculation_started'' \<or>
                         event_type (snd ev) = ''linear_step'' \<or>
                         event_type (snd ev) = ''exponential_step'')
           (drop (length (events w)) (events (snd (generate_calculation_events ops request w))))"
    unfolding c5 xs(1) using xs(2) by simp
  show ?thesis
    using c1 c2 c3 c4 c5 c6 by (intro conjI)
qed

theorem refused_final_update_is_passed_over_witness:
  "fst (update_calculation 0 11 2 2 1
         (before_final_update integral_ops \<lparr>base = 2, exponent = 1\<rparr>
            (empty_world [None, None, None, None, Some ''down'']))) = Some ''down'' \<and>
   map (field ''type'') (fst (generate_calculation_events integral_ops \<lparr>base = 2, exponent = 1\<rparr>
          (empty_world [None, None, None, None, Some ''down''])))
     = [Some (JStr ''start''), Some (JStr ''step''), Some (JStr ''complete'')] \<and>
   calculations (snd (generate_calculation_events integral_ops \<lparr>base = 2, exponent = 1\<rparr>
          (empty_world [None, None, None, None, Some ''down''])))
     = [(0, new_calculation_doc \<lparr>base = 2, exponent = 1\<rparr> 0)] \<and>
   events (snd (generate_calculation_events integral_ops \<lparr>base = 2, exponent = 1\<rparr>
          (empty_world [None, None, None, None, Some ''down''])))
     = events (before_final_update integral_ops \<lparr>base = 2, exponent = 1\<rparr>
          (empty_world [None, None, None, None, Some ''down'']))"
proof -
  let ?r = "\<lparr>base = 2 :: int, exponent = 1\<rparr>"
  let ?w = "empty_world [None, None, None, None, Some ''down''] :: int world"
  have h: "\<not> le_zero integral_ops (base ?r)" "1 \<le> exponent ?r" "exponent ?r \<le> 100"
    "accepted 2 ?w" "no_overflow integral_ops (base ?r) [1..exponent ?r]"
    by (simp_all add: integral_ops_def accepted_def empty_world_def no_overflow_def list_all_iff)
  have refused: "fst (update_calculation (next_oid ?w) (now ?w + 1 + 10 * nat (exponent ?r))
                (mul_int integral_ops (base ?r) (exponent ?r))
                (projr (math_pow integral_ops (base ?r) (exponent ?r))) (exponent ?r)
                (before_final_update integral_ops ?r ?w)) = Some ''down''"
    by (simp add: before_final_update_def eval_defs upto.simps)
  have args: "next_oid ?w = 0" "now ?w + 1 + 10 * nat (exponent ?r) = 11"
    "mul_int integral_ops (base ?r) (exponent ?r) = 2"
    "projr (math_pow integral_ops (base ?r) (exponent ?r)) = 2" "exponent ?r = 1"
    "calculations ?w = []" "now ?w = 0"
    by (simp_all add: empty_world_def integral_ops_def)
  have msgs: "map (field ''type'') (fst (generate_calculation_events integral_ops ?r ?w))
     = [Some (JStr ''start''), Some (JStr ''step''), Some (JStr ''complete'')]"
    by (simp add: eval_defs upto.simps start_event_def step_data_def completion_data_def)
  note run = refused_final_update_is_passed_over [OF h refused]
  show ?thesis
    using run refused msgs by (simp add: args integral_ops_def)
qed


text \<open>
  Claim C4 as stated fails on the streamed endpoint: with base 2, exponent 1 and a store
  that refuses the fifth call, the final update, the run still ends with the complete
  message, the record stays in progress and no error entry is journaled.
\<close>

theorem failed_final_update_counterexample:
  "\<not> le_zero integral_ops (base \<lparr>base = 2 :: int, exponent = 1\<rparr>) \<and>
   exponent \<lparr>base = 2 :: int, exponent = 1\<rparr> \<in> {1..100} \<and>
   issued (snd (generate_calculation_events integral_ops \<lparr>base = 2, exponent = 1\<rparr>
          (empty_world [None, None, None, None, Some ''down''])) ) ! 4 = UpdateCalculation 0 \<and>
   map (field ''type'') (fst (generate_calculation_events integral_ops \<lparr>base = 2, exponent = 1\<rparr>
          (empty_world [None, None, None, None, Some ''down''])))
     = [Some (JStr ''start''), Some (JStr ''step''), Some (JStr ''complete'')] \<and>
   map (status \<circ> snd) (calculations (snd (generate_calculation_events integral_ops
          \<lparr>base = 2, exponent = 1\<rparr> (empty_world [None, None, None, None, Some ''down''])))) = [''in_progress''] \<and>
   map (event_type \<circ> snd) (events (snd (generate_calculation_events integral_ops
          \<lparr>base = 2, exponent = 1\<rparr> (empty_world [None, None, None, None, Some ''down'']))))
     = [''calculation_started'', ''linear_step'', ''exponential_step'']"
  by (simp add: eval_defs upto.simps start_event_def step_data_def completion_data_def)

section \<open>The journal entries of the steps that a run performs\<close>

lemma log_event_accepted_entry:
  assumes "accepted (Suc n) w"
  shows "map (entry \<circ> snd) (events (snd (log_event cid ty msg d w)))
           = map (entry \<circ> snd) (events w) @ [(cid, ty, msg, Some (or_empty d))]"
    and "accepted n (snd (log_event cid ty msg d w))"
proof -
  have none: "fst (log_event cid ty msg d w) = None"
    by (rule log_event_accepted [OF assms])
  show "map (entry \<circ> snd) (events (snd (log_event cid ty msg d w)))
           = map (entry \<circ> snd) (events w) @ [(cid, ty, msg, Some (or_empty d))]"
    by (simp add: log_event_None(1) [OF none] entry_def event_doc_of_def)
  show "accepted n (snd (log_event cid ty msg d w))"
    by (rule accepted_tl [OF assms]) simp
qed

lemma log_step_accepted:
  assumes "accepted (Suc (Suc n)) w"
  shows "map (entry \<circ> snd) (events (log_step ops request cid i (mul_int ops (base request) i)
                   (projr (math_pow ops (base request) i)) w))
           = map (entry \<circ> snd) (events w) @ step_entries ops request cid i"
    and "accepted n (log_step ops request cid i (mul_int ops (base request) i)
                   (projr (math_pow ops (base request) i)) w)"
proof -
  let ?l = "log_event cid ''linear_step''
              (linear_step_message ops (base request) i (mul_int ops (base request) i))
              (Some (linear_step_payload i (mul_int ops (base request) i))) w"
  have l: "?l = (None, snd ?l)"
    using log_event_accepted [OF assms, of cid "''linear_step''"] by (simp add: prod_eq_iff)
  have a1: "accepted (Suc n) (snd ?l)"
    by (rule log_event_accepted_entry(2) [OF assms])
  have step: "log_step ops request cid i (mul_int ops (base request) i)
                   (projr (math_pow ops (base request) i)) w
      = snd (log_event cid ''exponential_step''
               (exponential_step_message ops (base request) i (projr (math_pow ops (base request) i)))
               (Some (exponential_step_payload i (projr (math_pow ops (base request) i)))) (snd ?l))"
    unfolding log_step_def by (subst l) simp
  show "accepted n (log_step ops request cid i (mul_int ops (base request) i)
                   (projr (math_pow ops (base request) i)) w)"
    unfolding step by (rule log_event_accepted_entry(2) [OF a1])
  show "map (entry \<circ> snd) (events (log_step ops request cid i (mul_int ops (base request) i)
                   (projr (math_pow ops (base request) i)) w))
           = map (entry \<circ> snd) (events w) @ step_entries ops request cid i"
    unfolding step
    by (simp only: log_event_accepted_entry(1) [OF a1] log_event_accepted_entry(1) [OF assms])
       (simp add: step_entries_def or_empty_def linear_step_payload_def
         exponential_step_payload_def)
qed

lemma accepted_sleep: "accepted n w \<Longrightarrow> accepted n (sleep k w)"
  by (simp add: accepted_def)

lemma step_loop_accepted:
  "accepted (2 * length is) w \<Longrightarrow>
     map (entry \<circ> snd) (events (fst (snd (step_loop ops request cid is w))))
       = map (entry \<circ> snd) (events w) @
         concat (map (step_entries ops request cid) (performed ops (base request) is))"
proof (induction "is" arbitrary: w)
  case Nil
  show ?case by (simp add: performed_def)
next
  case (Cons i rest)
  show ?case
  proof (cases "math_pow ops (base request) i")
    case (Inl e)
    then show ?thesis by (simp add: step_loop_Inl performed_def)
  next
    case (Inr x)
    then have px: "projr (math_pow ops (base request) i) = x" by simp
    have acc: "accepted (Suc (Suc (2 * length rest))) w"
      using Cons.prems by simp
    let ?w = "sleep 10 (log_step ops request cid i (mul_int ops (base request) i) x w)"
    have a: "accepted (2 * length rest) ?w"
      using log_step_accepted(2) [OF acc, of ops request cid i]
      by (simp add: px accepted_sleep)
    have ev: "map (entry \<circ> snd) (events ?w)
        = map (entry \<circ> snd) (events w) @ step_entries ops request cid i"
      using log_step_accepted(1) [OF acc, of ops request cid i] by (simp add: px)
    have perf: "performed ops (base request) (i # rest) = i # performed ops (base request) rest"
      using Inr by (simp add: performed_def)
    have unfold: "fst (snd (step_loop ops request cid (i # rest) w))
        = fst (snd (step_loop ops request cid rest ?w))"
      by (simp add: step_loop_Inr [OF Inr])
    show ?thesis
      unfolding unfold perf using Cons.IH [OF a] by (simp only: ev) simp
  qed
qed

lemma before_final_update_entries:
  assumes "1 \<le> exponent request" and "accepted (2 + 2 * nat (exponent request)) w"
  shows "map (entry \<circ> snd) (events (before_final_update ops request w))
           = map (entry \<circ> snd) (events w) @
             [(ObjectIdStr (next_oid w), ''calculation_started'', started_message ops request,
               Some (started_payload request))] @
             concat (map (step_entries ops request (ObjectIdStr (next_oid w)))
                       (performed ops (base request) [1..exponent request]))"
proof -
  let ?cid = "ObjectIdStr (next_oid w)"
  let ?w1 = "snd (insert_calculation (new_calculation_doc request (now w)) w)"
  let ?w2 = "snd (log_event ?cid ''calculation_started'' (started_message ops request)
                    (Some (started_payload request)) ?w1)"
  have a0: "accepted (Suc (Suc (2 * nat (exponent request)))) w"
    using assms(2) by simp
  have a1: "accepted (Suc (2 * nat (exponent request))) ?w1"
    by (rule accepted_tl [OF a0]) simp
  have a2: "accepted (2 * nat (exponent request)) ?w2"
    by (rule log_event_accepted_entry(2) [OF a1])
  have len: "length [1..exponent request] = nat (exponent request)"
    by simp
  have a3: "accepted (2 * length [1..exponent request]) (sleep 1 ?w2)"
    unfolding len by (rule accepted_sleep [OF a2])
  have e2: "map (entry \<circ> snd) (events (sleep 1 ?w2))
      = map (entry \<circ> snd) (events w) @
        [(?cid, ''calculation_started'', started_message ops request, Some (started_payload request))]"
    using log_event_accepted_entry(1) [OF a1, of ?cid "''calculation_started''"
        "started_message ops request" "Some (started_payload request)"]
    by (simp add: or_empty_def started_payload_def)
  show ?thesis
    unfolding before_final_update_def
    by (simp only: step_loop_accepted [OF a3] e2) simp
qed

lemma finish_record_events:
  "\<exists>xs. events (finish_record oid t lin ex n w) = events w @ xs \<and>
        list_all (\<lambda>ev. event_type (snd ev) = ''calculation_completed'') xs"
proof (cases "fst (update_calculation oid t lin ex n w)")
  case (Some e)
  then show ?thesis by (simp add: finish_record_update_failed)
next
  case None
  let ?u = "update_calculation oid t lin ex n w"
  from None have "finish_record oid t lin ex n w
      = snd (log_event (ObjectIdStr oid) ''calculation_completed''
               ''Calculation completed successfully'' None (snd ?u))"
    by (cases ?u) (simp add: finish_record_def)
  then show ?thesis
    using log_event_events [of "ObjectIdStr oid" "''calculation_completed''"
        "''Calculation completed successfully''" None "snd ?u"]
    by simp
qed

lemma run_events_tail:
  assumes "\<not> le_zero ops (base request)"
    and "1 \<le> exponent request" and "exponent request \<le> 100"
    and "accepted 2 w"
  shows "\<exists>xs. events (snd (generate_calculation_events ops request w))
                 = events (before_final_update ops request w) @ xs \<and>
              list_all (\<lambda>ev. event_type (snd ev) = ''calculation_completed'' \<or>
                              event_type (snd ev) = ''calculation_error'') xs"
proof (cases "first_overflow ops (base request) [1..exponent request]")
  case None
  then have pow: "no_overflow ops (base request) [1..exponent request]"
    by (simp add: first_overflow_None)
  have none: "snd (snd (generate_try ops request w)) = None"
    by (rule generate_try_ok(2) [OF assms pow])
  have "snd (generate_calculation_events ops request w) = fst (snd (generate_try ops request w))"
    using none by (simp add: generate_events_split)
  also have "\<dots> = finish_record (next_oid w) (now w + 1 + 10 * nat (exponent request))
                (mul_int ops (base request) (exponent request))
                (projr (math_pow ops (base request) (exponent request))) (exponent request)
                (before_final_update ops request w)"
    unfolding before_final_update_def by (rule generate_try_ok(3) [OF assms pow])
  finally have final: "snd (generate_calculation_events ops request w)
      = finish_record (next_oid w) (now w + 1 + 10 * nat (exponent request))
                (mul_int ops (base request) (exponent request))
                (projr (math_pow ops (base request) (exponent request))) (exponent request)
                (before_final_update ops request w)" .
  obtain xs where xs0: "events (finish_record (next_oid w) (now w + 1 + 10 * nat (exponent request))
                (mul_int ops (base request) (exponent request))
                (projr (math_pow ops (base request) (exponent request))) (exponent request)
                (before_final_update ops request w))
      = events (before_final_update ops request w) @ xs"
      and xs2: "list_all (\<lambda>ev. event_type (snd ev) = ''calculation_completed'') xs"
    using finish_record_events [of "next_oid w" "now w + 1 + 10 * nat (exponent request)"
        "mul_int ops (base request) (exponent request)"
        "projr (math_pow ops (base request) (exponent request))" "exponent request"
        "before_final_update ops request w"]
    by (elim exE conjE) (rule that)
  have xs1: "events (snd (generate_calculation_events ops request w))
      = events (before_final_update ops request w) @ xs"
    by (simp only: final xs0)
  have "list_all (\<lambda>ev. event_type (snd ev) = ''calculation_completed'' \<or>
                              event_type (snd ev) = ''calculation_error'') xs"
    using xs2 by (simp add: list_all_iff)
  then show ?thesis using xs1 by blast
next
  case (Some e)
  have "snd (generate_calculation_events ops request w)
      = snd (log_error (ObjectIdStr (next_oid w)) e (before_final_update ops request w))"
    using generate_try_overflow(2,3) [OF assms Some] by (simp add: generate_events_split)
  then have final: "snd (generate_calculation_events ops request w)
      = snd (log_event (ObjectIdStr (next_oid w)) ''calculation_error'' (''Error: '' @ e)
               (Some [(''error'', JStr e)]) (before_final_update ops request w))"
    by (simp add: log_error_def)
  obtain xs where xs0: "events (snd (log_event (ObjectIdStr (next_oid w)) ''calculation_error''
               (''Error: '' @ e) (Some [(''error'', JStr e)]) (before_final_update ops request w)))
      = events (before_final_update ops request w) @ xs"
      and xs2: "list_all (\<lambda>ev. event_type (snd ev) = ''calculation_error'') xs"
    using log_event_events [of "ObjectIdStr (next_oid w)" "''calculation_error''" "''Error: '' @ e"
        "Some [(''error'', JStr e)]" "before_final_update ops request w"]
    by (elim exE conjE) (rule that)
  have xs1: "events (snd (generate_calculation_events ops request w))
      = events (before_final_update ops request w) @ xs"
    by (simp only: final xs0)
  have "list_all (\<lambda>ev. event_type (snd ev) = ''calculation_completed'' \<or>
                              event_type (snd ev) = ''calculation_error'') xs"
    using xs2 by (simp add: list_all_iff)
  then show ?thesis using xs1 by blast
qed


lemma accepted_less: "m \<le> n \<Longrightarrow> accepted n w \<Longrightarrow> accepted m w"
  unfolding accepted_def using set_take_subset_set_take [of m n "faults w"] by blast





section \<open>A power beyond the range of a float\<close>

lemma growth_loop_overflow:
  "first_overflow ops (base request) is = Some e \<Longrightarrow> growth_loop ops request t is = Inl e"
proof (induction "is")
  case Nil
  then show ?case by (simp add: first_overflow_def)
next
  case (Cons i rest)
  show ?case
  proof (cases "math_pow ops (base request) i")
    case (Inl e')
    then show ?thesis using Cons.prems by (simp add: first_overflow_def Let_def)
  next
    case (Inr x)
    then have "first_overflow ops (base request) rest = Some e"
      using Cons.prems by (simp add: first_overflow_def)
    then show ?thesis using Cons.IH Inr by (simp add: Let_def)
  qed
qed

lemma calculate_growth_try_overflow:
  assumes base: "\<not> le_zero ops (base request)"
    and lo: "1 \<le> exponent request" and hi: "exponent request \<le> 100"
    and acc: "accepted 2 w"
    and pow: "first_overflow ops (base request) [1..exponent request] = Some e"
  shows "fst (calculate_growth_try ops request w) = Raised e"
    and "faults (snd (snd (calculate_growth_try ops request w))) = tl (tl (faults w))"
proof -
  let ?d = "new_calculation_doc request (now w)"
  let ?cid = "ObjectIdStr (next_oid w)"
  define w1 where "w1 = snd (insert_calculation ?d w)"
  have acc2: "accepted (Suc (Suc 0)) w" using acc by (simp add: numeral_2_eq_2)
  have ins: "insert_calculation ?d w = (Inr (next_oid w), w1)"
    using insert_calculation_accepted [OF acc2, of ?d] by (simp add: w1_def prod_eq_iff)
  have acc1: "accepted (Suc 0) w1"
    by (rule accepted_tl [OF acc2]) (simp add: w1_def)
  define w2 where "w2 = snd (log_event ?cid ''calculation_started'' (started_message ops request)
                           (Some (started_payload request)) w1)"
  have started: "log_event ?cid ''calculation_started'' (started_message ops request)
                           (Some (started_payload request)) w1 = (None, w2)"
    using log_event_accepted [OF acc1] by (simp add: w2_def prod_eq_iff)
  have loop: "growth_loop ops request (now w2) [1..exponent request] = Inl e"
    by (rule growth_loop_overflow [OF pow])
  have valid: "\<not> (exponent request \<le> 0 \<or> exponent request > 100)"
    using lo hi by simp
  have body: "calculate_growth_try ops request w = (Raised e, ?cid, w2)"
    unfolding calculate_growth_try_def
    using base valid
    by (simp add: ins started loop Let_def)
  show "fst (calculate_growth_try ops request w) = Raised e"
    by (simp add: body)
  show "faults (snd (snd (calculate_growth_try ops request w))) = tl (tl (faults w))"
    by (simp add: body w2_def w1_def)
qed

lemma accepted_3_tl_tl:
  "accepted 3 w \<Longrightarrow> faults w' = tl (tl (faults w)) \<Longrightarrow> accepted 1 w'"
proof -
  assume a: "accepted 3 w" and f: "faults w' = tl (tl (faults w))"
  have "accepted (Suc (Suc (Suc 0))) w" using a by (simp add: numeral_3_eq_3)
  then have "accepted (Suc (Suc 0)) (w\<lparr>faults := tl (faults w)\<rparr>)"
    by (rule accepted_tl) simp
  then have "accepted (Suc 0) w'"
    by (rule accepted_tl) (simp add: f)
  then show ?thesis by simp
qed



lemmas range_sync_eval_defs = calculate_growth_def calculate_growth_try_def range_ops_def empty_world_def
  insert_calculation_def store_call_def log_event_def log_error_def Let_def
  update_calculation_def new_calculation_doc_def event_doc_of_def


section \<open>Errors of the streamed endpoint stay in the stream\<close>

text \<open>
  Claim C9, as amended. A body that the framework's check of the request model refuses
  is answered with status 422 and the endpoint function does not run. For every body
  that fits the model, whatever the request and the store do, the response is the
  streaming response, with status 200 and the event-stream media type: a validation
  failure makes its body the single error message, and every exception that reaches the
  handler of the generator ends the body with an error message carrying the text of that
  exception.
\<close>

theorem stream_response_in_band:
  "(validate body_in = None \<longrightarrow>
      post_calculate_stream validate ops body_in w = (UnprocessableEntity, w)) \<and>
   (validate body_in = Some request \<longrightarrow>
      fst (post_calculate_stream validate ops body_in w)
        = EventStream (fst (calculate_growth_stream ops request w)) \<and>
      http_status (fst (post_calculate_stream validate ops body_in w)) = 200 \<and>
      media_type (fst (calculate_growth_stream ops request w)) = ''text/event-stream'' \<and>
      (le_zero ops (base request) \<longrightarrow>
         body (fst (calculate_growth_stream ops request w))
           = [validation_error ''Base must be positive'']) \<and>
      (\<not> le_zero ops (base request) \<and> (exponent request \<le> 0 \<or> exponent request > 100) \<longrightarrow>
         body (fst (calculate_growth_stream ops request w))
           = [validation_error ''Exponent must be between 1 and 100'']) \<and>
      (\<forall>e c. snd (snd (generate_try ops request w)) = Some (e, c) \<longrightarrow>
         body (fst (calculate_growth_stream ops request w)) \<noteq> [] \<and>
         last (body (fst (calculate_growth_stream ops request w))) = error_data e))"
  by (auto simp: post_calculate_stream_def calculate_growth_stream_def generate_calculation_events_def
        split: prod.splits option.splits)
     (auto simp: generate_try_def)

theorem stream_response_in_band_witness:
  "typed_body (JObj [(''base'', JFloat (2 :: int)), (''exponent'', JInt 3)])
     = Some \<lparr>base = 2, exponent = 3\<rparr> \<and>
   snd (snd (generate_try integral_ops \<lparr>base = 2, exponent = 3\<rparr> (empty_world [None, Some ''down''])))
     = Some (''down'', Some (ObjectIdStr 0)) \<and>
   http_status (fst (post_calculate_stream typed_body integral_ops
     (JObj [(''base'', JFloat 2), (''exponent'', JInt 3)]) (empty_world [None, Some ''down'']))) = 200 \<and>
   last (body (fst (calculate_growth_stream integral_ops \<lparr>base = 2, exponent = 3\<rparr>
     (empty_world [None, Some ''down''])))) = error_data ''down'' \<and>
   typed_body (JObj [(''base'', JFloat (2 :: int))]) = None \<and>
   post_calculate_stream typed_body integral_ops (JObj [(''base'', JFloat 2)]) (empty_world [])
     = (UnprocessableEntity, empty_world [])"
proof -
  let ?b = "JObj [(''base'', JFloat (2 :: int)), (''exponent'', JInt 3)]"
  let ?r = "\<lparr>base = 2 :: int, exponent = 3\<rparr>"
  let ?w = "empty_world [None, Some ''down''] :: int world"
  have typed: "typed_body ?b = Some ?r"
    by (simp add: typed_body_def)
  have refused: "typed_body (JObj [(''base'', JFloat (2 :: int))]) = None"
    by (simp add: typed_body_def)
  have raised: "snd (snd (generate_try integral_ops ?r ?w)) = Some (''down'', Some (ObjectIdStr 0))"
    by (simp add: generate_try_def integral_ops_def empty_world_def insert_calculation_def
        store_call_def log_event_def Let_def)
  note run = stream_response_in_band [of typed_body ?b integral_ops ?w ?r]
  note unfit = stream_response_in_band [of typed_body "JObj [(''base'', JFloat (2 :: int))]"
      integral_ops "empty_world []" ?r]
  have a: "http_status (fst (post_calculate_stream typed_body integral_ops ?b ?w)) = 200"
    using run typed by blast
  have b: "last (body (fst (calculate_growth_stream integral_ops ?r ?w))) = error_data ''down''"
    using run typed raised by blast
  have c: "post_calculate_stream typed_body integral_ops (JObj [(''base'', JFloat 2)]) (empty_world [])
     = (UnprocessableEntity, empty_world [])"
    using unfit refused by blast
  show ?thesis
    using typed raised a b refused c by (intro conjI)
qed

text \<open>
  Claim C9 as stated fails for a body that does not fit the request model: a body with a
  base and no exponent is answered with status 422, not with an event stream.
\<close>

theorem unfit_body_counterexample:
  "typed_body (JObj [(''base'', JFloat (2 :: int))]) = None \<and>
   http_status (fst (post_calculate_stream typed_body integral_ops
     (JObj [(''base'', JFloat 2)]) (empty_world []))) = 422"
  by (simp add: typed_body_def post_calculate_stream_def)

section \<open>The unguarded journal write of the synchronous handler\<close>

text \<open>
  Claim C7. The handler of the synchronous endpoint calls \<open>log_event\<close> (line 305) before
  it raises \<open>HTTPException(500)\<close> (line 307), and that call is not guarded. With base 2,
  exponent 3 and a store that accepts the record and refuses the start entry and the
  error entry, the failure after record creation is not journaled, and what leaves the
  function is the exception of the journal write instead of the HTTPException. On the
  same store the streamed run, whose handler guards the same write (lines 198 to 202),
  delivers its error message.
\<close>

theorem synchronous_error_entry_refused:
  "fst (calculate_growth_try integral_ops \<lparr>base = 2, exponent = 3\<rparr>
         (empty_world [None, Some ''down'', Some ''gone''])) = Raised ''down'' \<and>
   map (\<lambda>(k, d). (k, status d)) (calculations (snd (calculate_growth integral_ops
         \<lparr>base = 2, exponent = 3\<rparr> (empty_world [None, Some ''down'', Some ''gone'']))))
     = [(0, ''in_progress'')] \<and>
   events (snd (calculate_growth integral_ops \<lparr>base = 2, exponent = 3\<rparr>
         (empty_world [None, Some ''down'', Some ''gone'']))) = [] \<and>
   fst (calculate_growth integral_ops \<lparr>base = 2, exponent = 3\<rparr>
         (empty_world [None, Some ''down'', Some ''gone''])) = Raised ''gone'' \<and>
   fst (generate_calculation_events integral_ops \<lparr>base = 2, exponent = 3\<rparr>
         (empty_world [None, Some ''down'', Some ''gone'']))
     = [start_event (ObjectIdStr 0) \<lparr>base = 2, exponent = 3\<rparr>, error_data ''down'']"
  by (simp add: sync_eval_defs generate_calculation_events_def generate_try_def)


end
